theory Spec2Isabelle
  imports Main
begin

section \<open>Python strings\<close>

text \<open>
  A Python \<open>str\<close> is modelled as a \<open>string\<close>, each \<open>char\<close> standing for one code point
  below 256. \<open>isspace\<close> is the whitespace test shared by \<open>str.strip\<close>, \<open>str.split\<close> and the
  regular-expression class \<open>\s\<close>, restricted to that range: tab, line feed, vertical tab, form
  feed, carriage return, the four separators 0x1C to 0x1F, space, 0x85 and 0xA0.
\<close>

definition isspace :: "char \<Rightarrow> bool" where
  "isspace c \<longleftrightarrow> c \<in> {CHR 0x09, CHR 0x0A, CHR 0x0B, CHR 0x0C, CHR 0x0D,
                          CHR 0x1C, CHR 0x1D, CHR 0x1E, CHR 0x1F, CHR 0x20, CHR 0x85, CHR 0xA0}"

text \<open>\<open>s.strip()\<close>: whitespace removed at both ends.\<close>

definition strip :: "string \<Rightarrow> string" where
  "strip s = rev (dropWhile isspace (rev (dropWhile isspace s)))"

text \<open>
  \<open>s.split()\<close> with no separator: the maximal runs of non-whitespace characters, in order.
  The first argument of \<open>split_acc\<close> is the word being read.
\<close>

fun split_acc :: "string \<Rightarrow> string \<Rightarrow> string list" where
  "split_acc cur [] = (if cur = [] then [] else [cur])"
| "split_acc cur (c # cs) =
     (if isspace c then (if cur = [] then split_acc [] cs else cur # split_acc [] cs)
      else split_acc (cur @ [c]) cs)"

definition split_ws :: "string \<Rightarrow> string list" where
  "split_ws s = split_acc [] s"

text \<open>\<open>sep.join(parts)\<close>.\<close>

fun join :: "string \<Rightarrow> string list \<Rightarrow> string" where
  "join sep [] = []"
| "join sep [x] = x"
| "join sep (x # y # ys) = x @ sep @ join sep (y # ys)"

text \<open>
  \<open>xs[:k]\<close> for an integer \<open>k\<close>: the first \<open>k\<close> elements, and for a negative \<open>k\<close> all but
  the last \<open>-k\<close>.
\<close>

definition slice_to :: "'a list \<Rightarrow> int \<Rightarrow> 'a list" where
  "slice_to xs k = (if 0 \<le> k then take (nat k) xs else take (length xs - nat (- k)) xs)"

section \<open>Values read from JSON\<close>

text \<open>
  What \<open>json.loads\<close> can return. A dict keeps one value per key, so it is an association
  list read with \<open>map_of\<close>. A number that is not an integer literal is kept by its text: no
  operation of the program inspects it.
\<close>

datatype json =
    JNull
  | JBool bool
  | JInt int
  | JFloat string
  | JStr string
  | JList "json list"
  | JDict "(string \<times> json) list"

type_synonym py_dict = "(string \<times> json) list"

datatype py_error = AttributeError | JSONDecodeError | KeyError | OtherError

text \<open>
  \<open>isinstance(v, int)\<close> together with the integer the value compares as: \<open>bool\<close> is a
  subclass of \<open>int\<close> in Python, \<open>True\<close> comparing as 1 and \<open>False\<close> as 0.
\<close>

fun as_int :: "json \<Rightarrow> int option" where
  "as_int (JInt n) = Some n"
| "as_int (JBool b) = Some (if b then 1 else 0)"
| "as_int _ = None"

section \<open>The response validator\<close>

text \<open>The table \<open>self.likelihood_ranges\<close>, in insertion order.\<close>

definition likelihood_ranges :: "(string \<times> int \<times> int) list" where
  "likelihood_ranges =
     [(''Highly Unlikely'', 0, 20),
      (''Unlikely'', 21, 50),
      (''Somewhat Likely'', 51, 65),
      (''Likely'', 66, 80),
      (''Highly Likely'', 81, 100)]"

text \<open>
  The loop over \<open>likelihood_ranges.items()\<close>: the first entry whose interval contains the
  percentage wins, and the value held before the loop stays when none does.
\<close>

fun find_ranking :: "(string \<times> int \<times> int) list \<Rightarrow> int \<Rightarrow> string \<Rightarrow> string" where
  "find_ranking [] percentage likelihood_ranking = likelihood_ranking"
| "find_ranking ((ranking, min_val, max_val) # rest) percentage likelihood_ranking =
     (if min_val \<le> percentage \<and> percentage \<le> max_val then ranking
      else find_ranking rest percentage likelihood_ranking)"

definition padding_words :: "string list" where
  "padding_words = [''based'', ''on'', ''policy'', ''terms'', ''and'', ''conditions'',
                    ''provided'', ''in'', ''documentation'']"

definition default_explanation :: string where
  "default_explanation =
     ''Coverage assessment unavailable due to insufficient information in provided documentation.''"

text \<open>
  \<open>while len(words) < target and padding_words: words.append(padding_words.pop(0))\<close>,
  by recursion on the padding words left.
\<close>

fun pad_loop :: "int \<Rightarrow> string list \<Rightarrow> string list \<Rightarrow> string list" where
  "pad_loop target words [] = words"
| "pad_loop target words (p # ps) =
     (if int (length words) < target then pad_loop target (words @ [p]) ps else words)"

text \<open>\<open>TextProcessor.ensure_word_count\<close>.\<close>

definition ensure_word_count :: "string \<Rightarrow> int \<Rightarrow> string list \<Rightarrow> string" where
  "ensure_word_count text target_words padding =
     (let words = split_ws text in
      if int (length words) \<noteq> target_words then
        (if int (length words) > target_words then join '' '' (slice_to words target_words)
         else join '' '' (slice_to (pad_loop target_words words padding) target_words))
      else text)"

text \<open>\<open>d.get(key, default)\<close>.\<close>

definition dict_get :: "py_dict \<Rightarrow> string \<Rightarrow> json \<Rightarrow> json" where
  "dict_get d key dflt = (case map_of d key of None \<Rightarrow> dflt | Some v \<Rightarrow> v)"

text \<open>
  Lines 51 to 53 of \<open>validate_response_format\<close>: the percentage kept, paired with the
  integer it compares as.
\<close>

definition valid_percentage :: "py_dict \<Rightarrow> json \<times> int" where
  "valid_percentage d =
     (let percentage = dict_get d ''percentage_score'' (JInt 50) in
      case as_int percentage of
        None \<Rightarrow> (JInt 50, 50)
      | Some n \<Rightarrow> if n < 0 \<or> n > 100 then (JInt 50, 50) else (percentage, n))"

text \<open>
  \<open>InsuranceAnalyzer.validate_response_format\<close>. \<open>result.get\<close> exists on a dict only, and
  \<open>explanation.split\<close> on a string only: any other value raises \<open>AttributeError\<close>.
\<close>

definition validate_response_format :: "json \<Rightarrow> py_error + py_dict" where
  "validate_response_format result =
     (case result of
        JDict d \<Rightarrow>
          (let (percentage, n) = valid_percentage d;
               likelihood_ranking = find_ranking likelihood_ranges n ''Somewhat Likely''
           in case dict_get d ''explanation'' (JStr default_explanation) of
                JStr explanation \<Rightarrow>
                  (let words = split_ws explanation;
                       explanation =
                         (if length words \<noteq> 40 then
                            (if length words > 40 then join '' '' (take 40 words)
                             else join '' '' (take 40 (pad_loop 40 words padding_words)))
                          else explanation)
                   in Inr [(''percentage_score'', percentage),
                           (''likelihood_ranking'', JStr likelihood_ranking),
                           (''explanation'', JStr explanation)])
              | _ \<Rightarrow> Inl AttributeError)
      | _ \<Rightarrow> Inl AttributeError)"

text \<open>The band table as the specification prints it, for a score between 0 and 100.\<close>

definition spec_band :: "int \<Rightarrow> string" where
  "spec_band s =
     (if s \<le> 20 then ''Highly Unlikely''
      else if s \<le> 50 then ''Unlikely''
      else if s \<le> 65 then ''Somewhat Likely''
      else if s \<le> 80 then ''Likely''
      else ''Highly Likely'')"

text \<open>
  The score field cannot be used, as the specification reads it: it is absent, it is not a
  JSON integer (a boolean, a string, null, a list or a number with a fraction is not one), or
  it lies outside 0 to 100.
\<close>

definition score_unusable :: "py_dict \<Rightarrow> bool" where
  "score_unusable d =
     (case map_of d ''percentage_score'' of
        None \<Rightarrow> True
      | Some (JInt n) \<Rightarrow> n < 0 \<or> 100 < n
      | Some v \<Rightarrow> True)"

text \<open>The score field holds a JSON boolean.\<close>

definition score_is_boolean :: "py_dict \<Rightarrow> bool" where
  "score_is_boolean d =
     (case map_of d ''percentage_score'' of Some (JBool b) \<Rightarrow> True | _ \<Rightarrow> False)"

text \<open>A word as \<open>str.split\<close> yields it: not empty, with no whitespace in it.\<close>

definition is_word :: "string \<Rightarrow> bool" where
  "is_word w \<longleftrightarrow> w \<noteq> [] \<and> list_all (\<lambda>c. \<not> isspace c) w"


section \<open>The text structurer\<close>

text \<open>
  \<open>re.sub(r'\n\s*\n', '\n\n', text)\<close>. A match starts at a line feed; the greedy \<open>\s*\<close> takes
  the whole run of whitespace that follows and gives back characters until a line feed ends
  the match, so the match reaches the last line feed of that run, when the run has one. The
  search goes on behind the match. \<open>after_last_newline\<close> is what the run has behind its last
  line feed.
\<close>

definition after_last_newline :: "string \<Rightarrow> string" where
  "after_last_newline ws = rev (takeWhile (\<lambda>c. c \<noteq> CHR 0x0A) (rev ws))"

function sub_blank_lines :: "string \<Rightarrow> string" where
  "sub_blank_lines [] = []"
| "sub_blank_lines (c # cs) =
     (if c = CHR 0x0A \<and> CHR 0x0A \<in> set (takeWhile isspace cs)
      then CHR 0x0A # CHR 0x0A #
           sub_blank_lines (after_last_newline (takeWhile isspace cs) @ dropWhile isspace cs)
      else c # sub_blank_lines cs)"
  by pat_completeness auto
termination
proof (relation "measure length")
  fix c :: char and cs :: string
  have "length (after_last_newline (takeWhile isspace cs)) \<le> length (takeWhile isspace cs)"
    unfolding after_last_newline_def length_rev
    by (rule order_trans[OF length_takeWhile_le]) simp
  moreover have "length (takeWhile isspace cs) + length (dropWhile isspace cs) = length cs"
    by (metis length_append takeWhile_dropWhile_id)
  ultimately show "(after_last_newline (takeWhile isspace cs) @ dropWhile isspace cs, c # cs)
                     \<in> measure length"
    by simp
qed simp_all

text \<open>\<open>re.sub(r' +', ' ', text)\<close>: every run of spaces becomes one space.\<close>

function collapse_spaces :: "string \<Rightarrow> string" where
  "collapse_spaces [] = []"
| "collapse_spaces (c # cs) =
     (if c = CHR '' '' then CHR '' '' # collapse_spaces (dropWhile (\<lambda>c. c = CHR '' '') cs)
      else c # collapse_spaces cs)"
  by pat_completeness auto
termination
  by (relation "measure length") (simp_all add: length_dropWhile_le less_Suc_eq_le)

text \<open>
  \<open>text.split(sep)\<close> for a separator of one character: the pieces between the separators,
  empty ones kept, so always at least one piece.
\<close>

fun split_on_acc :: "char \<Rightarrow> string \<Rightarrow> string \<Rightarrow> string list" where
  "split_on_acc sep cur [] = [cur]"
| "split_on_acc sep cur (c # cs) =
     (if c = sep then cur # split_on_acc sep [] cs else split_on_acc sep (cur @ [c]) cs)"

definition split_on :: "char \<Rightarrow> string \<Rightarrow> string list" where
  "split_on sep s = split_on_acc sep [] s"

text \<open>
  \<open>s.lower()\<close> on code points below 256: the letters A to Z, and 0xC0 to 0xDE but for the
  multiplication sign 0xD7, move up by 32.
\<close>

definition lower_char :: "char \<Rightarrow> char" where
  "lower_char c =
     (let n = (of_char c :: nat) in
      if (65 \<le> n \<and> n \<le> 90) \<or> (192 \<le> n \<and> n \<le> 222 \<and> n \<noteq> 215) then char_of (n + 32) else c)"

definition lower :: "string \<Rightarrow> string" where
  "lower s = map lower_char s"

text \<open>\<open>needle in haystack\<close> for strings.\<close>

definition starts_with :: "string \<Rightarrow> string \<Rightarrow> bool" where
  "starts_with needle s \<longleftrightarrow> take (length needle) s = needle"

fun contains :: "string \<Rightarrow> string \<Rightarrow> bool" where
  "contains needle [] \<longleftrightarrow> needle = []"
| "contains needle (c # cs) \<longleftrightarrow> starts_with needle (c # cs) \<or> contains needle cs"

definition sections :: "string list" where
  "sections = [''policy summary'', ''coverage'', ''exclusions'', ''deductible'',
               ''limits'', ''conditions'', ''definitions'', ''schedule'', ''listed events'']"

text \<open>\<open>any(section in line.lower() for section in sections)\<close>.\<close>

definition is_section_header :: "string list \<Rightarrow> string \<Rightarrow> bool" where
  "is_section_header secs line \<longleftrightarrow> list_ex (\<lambda>section. contains section (lower line)) secs"

text \<open>
  The loop over the lines, the same in \<open>clean_and_structure_text\<close> and in
  \<open>TextProcessor.identify_sections\<close>: a line is stripped, dropped when empty, and wrapped as
  \<open>"\n=== line ==="\<close> when it holds a section keyword.
\<close>

fun structure_lines :: "string list \<Rightarrow> string list \<Rightarrow> string list" where
  "structure_lines secs [] = []"
| "structure_lines secs (line # lines) =
     (let line = strip line in
      if line \<noteq> [] then
        (if is_section_header secs line
         then (CHR 0x0A # ''=== '' @ line @ '' ==='') # structure_lines secs lines
         else line # structure_lines secs lines)
      else structure_lines secs lines)"

text \<open>\<open>TextProcessor.clean_whitespace\<close> and \<open>TextProcessor.identify_sections\<close>.\<close>

definition clean_whitespace :: "string \<Rightarrow> string" where
  "clean_whitespace text = strip (collapse_spaces (sub_blank_lines text))"

definition identify_sections :: "string \<Rightarrow> string list \<Rightarrow> string list" where
  "identify_sections text secs = structure_lines secs (split_on (CHR 0x0A) text)"

text \<open>\<open>InsuranceAnalyzer.clean_and_structure_text\<close>.\<close>

definition clean_and_structure_text :: "string \<Rightarrow> string" where
  "clean_and_structure_text text =
     (let text = sub_blank_lines text;
          text = collapse_spaces text;
          lines = split_on (CHR 0x0A) text;
          structured_lines = structure_lines sections lines
      in join [CHR 0x0A] structured_lines)"

section \<open>The analysis pipeline\<close>

text \<open>
  The two fixed answers, \<open>_get_fallback_response\<close> and \<open>_get_error_fallback_response\<close>.
\<close>

definition get_fallback_response :: py_dict where
  "get_fallback_response =
     [(''percentage_score'', JInt 50),
      (''likelihood_ranking'', JStr ''Somewhat Likely''),
      (''explanation'', JStr ''Unable to parse model response. Coverage assessment requires manual review of policy documentation for accurate determination of applicable terms and conditions.'')]"

definition get_error_fallback_response :: py_dict where
  "get_error_fallback_response =
     [(''percentage_score'', JInt 50),
      (''likelihood_ranking'', JStr ''Somewhat Likely''),
      (''explanation'', JStr ''Technical error occurred during analysis. Coverage determination requires manual review of policy terms conditions exclusions and applicable circumstances for accurate assessment.'')]"

text \<open>
  \<open>re.search(r'\{.*\}', result, re.DOTALL)\<close>: from the first opening brace to the last
  closing brace behind it, when there is one.
\<close>

definition search_braces :: "string \<Rightarrow> string option" where
  "search_braces s =
     (let t = dropWhile (\<lambda>c. c \<noteq> CHR ''{'') s in
      if CHR ''}'' \<in> set t then Some (rev (dropWhile (\<lambda>c. c \<noteq> CHR ''}'') (rev t))) else None)"

text \<open>
  The completion service is outside the program. \<open>client\<close> stands for the prompt built by
  \<open>_create_analysis_prompt\<close> from the structured text, the question and the insurance type,
  sent through \<open>chat.completions.create\<close>: the call raises, or it gives the content of the
  first message, which may be \<open>None\<close>. \<open>json_loads\<close> stands for \<open>json.loads\<close>, which returns a
  value or raises \<open>JSONDecodeError\<close> or something else.
\<close>

datatype completion = InvocationError | Content "string option"

type_synonym client = "string \<Rightarrow> string \<Rightarrow> string \<Rightarrow> completion"

type_synonym json_loads = "string \<Rightarrow> py_error + json"

text \<open>The body of the \<open>try\<close> block of \<open>analyze_coverage\<close>; \<open>Inl\<close> is an exception leaving it.\<close>

definition analyze_try ::
  "client \<Rightarrow> json_loads \<Rightarrow> string \<Rightarrow> string \<Rightarrow> string \<Rightarrow> py_error + py_dict" where
  "analyze_try client json_loads structured_content question insurance_type =
     (case client structured_content question insurance_type of
        InvocationError \<Rightarrow> Inl OtherError
      | Content None \<Rightarrow> Inl AttributeError
      | Content (Some content) \<Rightarrow>
          (let result = strip content;
               parsed =
                 (case json_loads result of
                    Inr v \<Rightarrow> Inr v
                  | Inl JSONDecodeError \<Rightarrow>
                      (case search_braces result of
                         Some json_match \<Rightarrow> json_loads json_match
                       | None \<Rightarrow> Inr (JDict get_fallback_response))
                  | Inl e \<Rightarrow> Inl e)
           in case parsed of
                Inl e \<Rightarrow> Inl e
              | Inr parsed_result \<Rightarrow> validate_response_format parsed_result))"

text \<open>
  \<open>InsuranceAnalyzer.analyze_coverage\<close>: \<open>except Exception\<close> turns every exception of the
  body into the error answer.
\<close>

definition analyze_coverage ::
  "client \<Rightarrow> json_loads \<Rightarrow> string \<Rightarrow> string \<Rightarrow> string \<Rightarrow> py_error + py_dict" where
  "analyze_coverage client json_loads pdf_content question insurance_type =
     (let structured_content = clean_and_structure_text pdf_content in
      case analyze_try client json_loads structured_content question insurance_type of
        Inl e \<Rightarrow> Inr get_error_fallback_response
      | Inr validated_result \<Rightarrow> Inr validated_result)"

text \<open>
  The invariant of an answer: its band is the name of the one row of the table whose
  interval contains its score.
\<close>

definition rows_containing :: "int \<Rightarrow> string list" where
  "rows_containing n =
     map fst (filter (\<lambda>(ranking, min_val, max_val). min_val \<le> n \<and> n \<le> max_val) likelihood_ranges)"

definition band_matches_score :: "py_dict \<Rightarrow> bool" where
  "band_matches_score r =
     (case (map_of r ''percentage_score'', map_of r ''likelihood_ranking'') of
        (Some p, Some (JStr band)) \<Rightarrow>
          (case as_int p of Some n \<Rightarrow> rows_containing n = [band] | None \<Rightarrow> False)
      | _ \<Rightarrow> False)"

text \<open>What the validator makes of the parse-failure answer.\<close>

definition validated_fallback :: py_dict where
  "validated_fallback =
     [(''percentage_score'', JInt 50),
      (''likelihood_ranking'', JStr ''Unlikely''),
      (''explanation'', JStr ''Unable to parse model response. Coverage assessment requires manual review of policy documentation for accurate determination of applicable terms and conditions. based on policy terms and conditions provided in documentation'')]"

section \<open>The PDF text extractor\<close>

text \<open>
  A \<open>bytes\<close> value is a \<open>string\<close>, one \<open>char\<close> a byte. PyMuPDF and PyPDF2 are outside the
  program: a library either raises, \<open>Inl\<close> holding the text of the exception, or gives the
  texts of the pages in order.
\<close>

type_synonym bytes = string

type_synonym pdf_library = "bytes \<Rightarrow> string + string list"

datatype http_exception = HTTPException (status_code: nat) (detail: string)

text \<open>The loop \<open>text += page_text + "\n\n"\<close> over the pages, from the empty text.\<close>

definition page_texts :: "string list \<Rightarrow> string" where
  "page_texts pages = foldl (\<lambda>text page_text. text @ page_text @ [CHR 0x0A, CHR 0x0A]) [] pages"

definition extract_text_pymupdf :: "pdf_library \<Rightarrow> bytes \<Rightarrow> http_exception + string" where
  "extract_text_pymupdf fitz pdf_bytes =
     (case fitz pdf_bytes of
        Inl e \<Rightarrow> Inl (HTTPException 500 (''Error extracting text with PyMuPDF: '' @ e))
      | Inr pages \<Rightarrow> Inr (strip (page_texts pages)))"

definition extract_text_pypdf2 :: "pdf_library \<Rightarrow> bytes \<Rightarrow> http_exception + string" where
  "extract_text_pypdf2 pypdf2 pdf_bytes =
     (case pypdf2 pdf_bytes of
        Inl e \<Rightarrow> Inl (HTTPException 500 (''Error extracting text with PyPDF2: '' @ e))
      | Inr pages \<Rightarrow> Inr (strip (page_texts pages)))"

datatype extractor = PyMuPDF | PyPDF2

text \<open>
  \<open>PDFExtractor.extract_text\<close>, with the extractors it ran, in order. The bare \<open>except\<close>
  swallows whatever the first extractor raised.
\<close>

definition extract_text ::
  "pdf_library \<Rightarrow> pdf_library \<Rightarrow> bytes \<Rightarrow> extractor list \<times> (http_exception + string)" where
  "extract_text fitz pypdf2 pdf_bytes =
     (case extract_text_pymupdf fitz pdf_bytes of
        Inr text \<Rightarrow>
          if text \<noteq> [] \<and> length (strip text) > 50 then ([PyMuPDF], Inr text)
          else ([PyMuPDF, PyPDF2], extract_text_pypdf2 pypdf2 pdf_bytes)
      | Inl e \<Rightarrow> ([PyMuPDF, PyPDF2], extract_text_pypdf2 pypdf2 pdf_bytes))"

text \<open>The number of characters of a text that are not whitespace.\<close>

definition non_whitespace_count :: "string \<Rightarrow> nat" where
  "non_whitespace_count text = length (filter (\<lambda>c. \<not> isspace c) text)"

text \<open>
  The first extractor raised, or its text, stripped, has at most 50 characters of any kind.
\<close>

definition primary_insufficient :: "pdf_library \<Rightarrow> bytes \<Rightarrow> bool" where
  "primary_insufficient fitz pdf_bytes =
     (case extract_text_pymupdf fitz pdf_bytes of
        Inl e \<Rightarrow> True
      | Inr text \<Rightarrow> length (strip text) \<le> 50)"

section \<open>The request handler\<close>

text \<open>\<open>validate_pdf_file_type\<close> and \<open>validate_question_content\<close> of \<open>validators.py\<close>.\<close>

definition validate_pdf_file_type :: "string option \<Rightarrow> string list \<Rightarrow> http_exception + unit" where
  "validate_pdf_file_type ctype allowed_types =
     (if ctype \<notin> set (map Some allowed_types)
      then Inl (HTTPException 400 ''File must be a PDF'') else Inr ())"

definition validate_question_content :: "string \<Rightarrow> http_exception + unit" where
  "validate_question_content question =
     (if strip question = [] then Inl (HTTPException 400 ''Question cannot be empty'') else Inr ())"

text \<open>
  An uploaded file: the content type its part declares, if any, and the bytes \<open>read()\<close>
  gives.
\<close>

record upload_file =
  content_type :: "string option"
  file_bytes :: bytes

datatype part = PolicyDisclosure | ScheduleOfCoverage

datatype effect = ReadBytes part | RunExtractor part extractor | CallAnalyzer

text \<open>
  What can be raised inside the \<open>try\<close> block of the handler; \<open>str_exc\<close> below is Python's
  \<open>str\<close> of it. \<open>coverage_response\<close> is the constructor \<open>CoverageResponse(...)\<close> of the
  response model, which validates its keyword arguments and may raise.
\<close>

datatype raised = RaisedHTTP http_exception | RaisedPy py_error | RaisedValidation string

definition combined_text :: "string \<Rightarrow> string \<Rightarrow> string" where
  "combined_text policy_text schedule_text =
     [CHR 0x0A] @ ''=== POLICY DISCLOSURE STATEMENT ==='' @ [CHR 0x0A] @ policy_text
     @ [CHR 0x0A, CHR 0x0A] @ ''=== SCHEDULE OF COVERAGE ==='' @ [CHR 0x0A] @ schedule_text
     @ [CHR 0x0A]"

definition processing_error :: "(raised \<Rightarrow> string) \<Rightarrow> raised \<Rightarrow> http_exception" where
  "processing_error str_exc e = HTTPException 500 (''Error processing request: '' @ str_exc e)"

text \<open>The \<open>try\<close> block of the handler, with the effects in the order they happen.\<close>

definition endpoint_try ::
  "pdf_library \<Rightarrow> pdf_library \<Rightarrow> client \<Rightarrow> json_loads \<Rightarrow> (py_dict \<Rightarrow> string + 'r) \<Rightarrow>
   upload_file \<Rightarrow> upload_file \<Rightarrow> string \<Rightarrow> string \<Rightarrow> effect list \<times> (raised + 'r)" where
  "endpoint_try fitz pypdf2 client json_loads coverage_response
       policy_disclosure schedule_coverage insurance_type question =
     (let policy_bytes = file_bytes policy_disclosure;
          schedule_bytes = file_bytes schedule_coverage;
          reads = [ReadBytes PolicyDisclosure, ReadBytes ScheduleOfCoverage];
          (runs1, policy) = extract_text fitz pypdf2 policy_bytes;
          effects1 = reads @ map (RunExtractor PolicyDisclosure) runs1
      in case policy of
           Inl e \<Rightarrow> (effects1, Inl (RaisedHTTP e))
         | Inr policy_text \<Rightarrow>
             (let (runs2, schedule) = extract_text fitz pypdf2 schedule_bytes;
                  effects2 = effects1 @ map (RunExtractor ScheduleOfCoverage) runs2
              in case schedule of
                   Inl e \<Rightarrow> (effects2, Inl (RaisedHTTP e))
                 | Inr schedule_text \<Rightarrow>
                     (effects2 @ [CallAnalyzer],
                      case analyze_coverage client json_loads
                             (combined_text policy_text schedule_text) question insurance_type of
                        Inl e \<Rightarrow> Inl (RaisedPy e)
                      | Inr result \<Rightarrow>
                          (case (map_of result ''percentage_score'',
                                 map_of result ''likelihood_ranking'',
                                 map_of result ''explanation'') of
                             (Some s, Some l, Some e) \<Rightarrow>
                               (case coverage_response [(''percentage_score'', s),
                                                        (''likelihood_ranking'', l),
                                                        (''explanation'', e)] of
                                  Inl msg \<Rightarrow> Inl (RaisedValidation msg)
                                | Inr response \<Rightarrow> Inr response)
                           | _ \<Rightarrow> Inl (RaisedPy KeyError)))))"

text \<open>
  The handler \<open>analyze_coverage\<close> of \<open>endpoints/coverage.py\<close>: the three checks raise before
  the \<open>try\<close> block, and whatever the block raises becomes a 500.
\<close>

definition analyze_coverage_endpoint ::
  "pdf_library \<Rightarrow> pdf_library \<Rightarrow> client \<Rightarrow> json_loads \<Rightarrow> (py_dict \<Rightarrow> string + 'r) \<Rightarrow>
   (raised \<Rightarrow> string) \<Rightarrow> upload_file \<Rightarrow> upload_file \<Rightarrow> string \<Rightarrow> string \<Rightarrow>
   effect list \<times> (http_exception + 'r)" where
  "analyze_coverage_endpoint fitz pypdf2 client json_loads coverage_response str_exc
       policy_disclosure schedule_coverage insurance_type question =
     (let allowed_types = [''application/pdf''] in
      if content_type policy_disclosure \<notin> set (map Some allowed_types)
      then ([], Inl (HTTPException 400 ''Policy Disclosure must be a PDF file''))
      else if content_type schedule_coverage \<notin> set (map Some allowed_types)
      then ([], Inl (HTTPException 400 ''Schedule of Coverage must be a PDF file''))
      else if strip question = []
      then ([], Inl (HTTPException 400 ''Question cannot be empty''))
      else
        (case endpoint_try fitz pypdf2 client json_loads coverage_response
                policy_disclosure schedule_coverage insurance_type question of
           (effects, Inl e) \<Rightarrow> (effects, Inl (processing_error str_exc e))
         | (effects, Inr response) \<Rightarrow> (effects, Inr response)))"

text \<open>
  The request as the specification rejects it: a file part that does not declare the PDF
  content type, or a question that is empty or all whitespace.
\<close>

definition request_rejected :: "upload_file \<Rightarrow> upload_file \<Rightarrow> string \<Rightarrow> bool" where
  "request_rejected policy_disclosure schedule_coverage question \<longleftrightarrow>
     content_type policy_disclosure \<noteq> Some ''application/pdf''
     \<or> content_type schedule_coverage \<noteq> Some ''application/pdf''
     \<or> list_all isspace question"

section \<open>Notions for the second pass of the structurer\<close>

text \<open>
  The lines the structurer keeps: the lines of the cleaned text, stripped, the empty ones
  dropped.
\<close>

definition content_lines :: "string \<Rightarrow> string list" where
  "content_lines text =
     filter (\<lambda>line. line \<noteq> [])
       (map strip (split_on (CHR 0x0A) (collapse_spaces (sub_blank_lines text))))"

text \<open>One layer of section marker around a line, and a kept line as the loop writes it.\<close>

definition wrap_marker :: "string \<Rightarrow> string" where
  "wrap_marker line = ''=== '' @ line @ '' ===''"

definition structured_line :: "string list \<Rightarrow> string \<Rightarrow> string" where
  "structured_line secs line =
     (if is_section_header secs line then CHR 0x0A # wrap_marker line else line)"

text \<open>
  The kept lines written out each behind a line feed, and the pieces the second pass
  splits them into.
\<close>

definition rendered :: "string list \<Rightarrow> string list \<Rightarrow> string" where
  "rendered secs ls = concat (map (\<lambda>line. CHR 0x0A # structured_line secs line) ls)"

definition split_pieces :: "string list \<Rightarrow> string list \<Rightarrow> string list" where
  "split_pieces secs ls =
     concat (map (\<lambda>line. if is_section_header secs line then [[], wrap_marker line] else [line]) ls)"

text \<open>
  A text without two spaces in a row, and a kept line: not empty, without a line feed,
  without whitespace at either end and without two spaces in a row.
\<close>

fun no_double_space :: "string \<Rightarrow> bool" where
  "no_double_space (a # b # cs) \<longleftrightarrow>
     (a \<noteq> CHR '' '' \<or> b \<noteq> CHR '' '') \<and> no_double_space (b # cs)"
| "no_double_space cs \<longleftrightarrow> True"

definition tidy :: "string \<Rightarrow> bool" where
  "tidy line \<longleftrightarrow>
     line \<noteq> [] \<and> CHR 0x0A \<notin> set line \<and> \<not> isspace (hd line) \<and> \<not> isspace (last line)
     \<and> no_double_space line"

section \<open>Properties of the response validator\<close>

lemma inline_is_ensure_word_count:
  "(let words = split_ws e in
      (if length words \<noteq> 40 then
         (if length words > 40 then join '' '' (take 40 words)
          else join '' '' (take 40 (pad_loop 40 words padding_words)))
       else e)) = ensure_word_count e 40 padding_words"
  by (simp add: ensure_word_count_def slice_to_def Let_def)

text \<open>
  The validator on a dict, in one equation: it returns exactly when the explanation field is
  absent or a string.
\<close>

lemma validate_dict:
  "validate_response_format (JDict d) =
     (case dict_get d ''explanation'' (JStr default_explanation) of
        JStr e \<Rightarrow> Inr [(''percentage_score'', fst (valid_percentage d)),
                       (''likelihood_ranking'',
                          JStr (find_ranking likelihood_ranges (snd (valid_percentage d)) ''Somewhat Likely'')),
                       (''explanation'', JStr (ensure_word_count e 40 padding_words))]
      | _ \<Rightarrow> Inl AttributeError)"
  by (simp add: validate_response_format_def inline_is_ensure_word_count[symmetric] Let_def
        split: prod.splits json.splits)

lemma find_ranking_table:
  "0 \<le> s \<Longrightarrow> s \<le> 100 \<Longrightarrow> find_ranking likelihood_ranges s dflt = spec_band s"
  by (simp add: likelihood_ranges_def spec_band_def)

lemma row_iff_band:
  "0 \<le> s \<Longrightarrow> s \<le> 100 \<Longrightarrow>
     \<forall>(ranking, min_val, max_val) \<in> set likelihood_ranges.
        (min_val \<le> s \<and> s \<le> max_val) \<longleftrightarrow> ranking = spec_band s"
  by (simp add: likelihood_ranges_def spec_band_def)

lemma ranking_names_distinct: "distinct (map fst likelihood_ranges)"
  by (simp add: likelihood_ranges_def)

lemma valid_percentage_int:
  "0 \<le> s \<Longrightarrow> s \<le> 100 \<Longrightarrow> map_of d ''percentage_score'' = Some (JInt s) \<Longrightarrow>
     valid_percentage d = (JInt s, s)"
  by (simp add: valid_percentage_def dict_get_def)

lemma valid_percentage_default:
  "score_unusable d \<Longrightarrow> \<not> score_is_boolean d \<Longrightarrow> valid_percentage d = (JInt 50, 50)"
  by (auto simp: score_unusable_def score_is_boolean_def valid_percentage_def dict_get_def
        split: option.splits json.splits)

lemma valid_percentage_same_score:
  "map_of d1 ''percentage_score'' = map_of d2 ''percentage_score'' \<Longrightarrow>
     valid_percentage d1 = valid_percentage d2"
  by (simp add: valid_percentage_def dict_get_def)

lemma valid_percentage_range:
  "\<exists>n. as_int (fst (valid_percentage d)) = Some n \<and> snd (valid_percentage d) = n \<and> 0 \<le> n \<and> n \<le> 100"
  by (auto simp: valid_percentage_def dict_get_def Let_def split: option.splits)

text \<open>The eight boundary scores of the table, through the loop of the validator.\<close>

lemma boundary_scores:
  "find_ranking likelihood_ranges 20 ''Somewhat Likely'' = ''Highly Unlikely''"
  "find_ranking likelihood_ranges 21 ''Somewhat Likely'' = ''Unlikely''"
  "find_ranking likelihood_ranges 50 ''Somewhat Likely'' = ''Unlikely''"
  "find_ranking likelihood_ranges 51 ''Somewhat Likely'' = ''Somewhat Likely''"
  "find_ranking likelihood_ranges 65 ''Somewhat Likely'' = ''Somewhat Likely''"
  "find_ranking likelihood_ranges 66 ''Somewhat Likely'' = ''Likely''"
  "find_ranking likelihood_ranges 80 ''Somewhat Likely'' = ''Likely''"
  "find_ranking likelihood_ranges 81 ''Somewhat Likely'' = ''Highly Likely''"
  by (simp_all add: likelihood_ranges_def)

text \<open>
  Claim C1. For an integer score \<open>s\<close> between 0 and 100 the loop over the table, taken in
  table order, stops at the band the specification's table gives; that band is the only row
  of the table whose interval contains \<open>s\<close>; and the validator, which returns whenever the
  explanation field is absent or a string, returns the score unchanged with that band.
\<close>

theorem band_assignment_matches_table:
  assumes "0 \<le> s" and "s \<le> 100" and "map_of d ''percentage_score'' = Some (JInt s)"
  shows "find_ranking likelihood_ranges s ''Somewhat Likely'' = spec_band s
       \<and> (\<forall>(ranking, min_val, max_val) \<in> set likelihood_ranges.
             (min_val \<le> s \<and> s \<le> max_val) \<longleftrightarrow> ranking = spec_band s)
       \<and> distinct (map fst likelihood_ranges)
       \<and> validate_response_format (JDict d) =
           (case dict_get d ''explanation'' (JStr default_explanation) of
              JStr e \<Rightarrow> Inr [(''percentage_score'', JInt s),
                             (''likelihood_ranking'', JStr (spec_band s)),
                             (''explanation'', JStr (ensure_word_count e 40 padding_words))]
            | _ \<Rightarrow> Inl AttributeError)"
  unfolding validate_dict valid_percentage_int[OF assms] fst_conv snd_conv
    find_ranking_table[OF assms(1,2)]
  using row_iff_band[OF assms(1,2)] ranking_names_distinct by simp

theorem band_assignment_matches_table_witness:
  "find_ranking likelihood_ranges 50 ''Somewhat Likely'' = ''Unlikely''
   \<and> map fst (filter (\<lambda>(ranking, min_val, max_val). min_val \<le> 50 \<and> 50 \<le> max_val)
                  likelihood_ranges) = [''Unlikely'']
   \<and> validate_response_format
         (JDict [(''percentage_score'', JInt 50), (''likelihood_ranking'', JStr ''Somewhat Likely'')])
       = Inr [(''percentage_score'', JInt 50),
              (''likelihood_ranking'', JStr ''Unlikely''),
              (''explanation'', JStr (ensure_word_count default_explanation 40 padding_words))]"
proof -
  have "map fst (filter (\<lambda>(ranking, min_val, max_val). min_val \<le> 50 \<and> 50 \<le> max_val)
                  likelihood_ranges) = [''Unlikely'']"
    by (simp add: likelihood_ranges_def)
  then show ?thesis
    using band_assignment_matches_table
            [of 50 "[(''percentage_score'', JInt 50), (''likelihood_ranking'', JStr ''Somewhat Likely'')]"]
    by (simp add: spec_band_def dict_get_def)
qed

text \<open>
  Apart from a boolean score, a score field that cannot be used gives score 50 and band
  Unlikely, in the result the validator returns whenever the explanation field is absent or
  a string. For every dict the score kept compares as an integer between 0 and 100.
\<close>

lemma unusable_score_defaults_unless_boolean:
  assumes "score_unusable d" and "\<not> score_is_boolean d"
  shows "validate_response_format (JDict d) =
       (case dict_get d ''explanation'' (JStr default_explanation) of
          JStr e \<Rightarrow> Inr [(''percentage_score'', JInt 50),
                         (''likelihood_ranking'', JStr ''Unlikely''),
                         (''explanation'', JStr (ensure_word_count e 40 padding_words))]
        | _ \<Rightarrow> Inl AttributeError)"
  unfolding validate_dict valid_percentage_default[OF assms] fst_conv snd_conv boundary_scores(3) ..

text \<open>
  Claim C3 fails at a boolean score. The test \<open>isinstance(percentage, int)\<close> lets a JSON
  boolean through, since \<open>bool\<close> is a subclass of \<open>int\<close>, and \<open>True\<close> compares as 1: the
  validator keeps \<open>True\<close> as the score and gives the band Highly Unlikely, where the claim
  says score 50 and band Unlikely for a score that is not an integer.
\<close>

theorem boolean_score_is_kept:
  "score_unusable [(''percentage_score'', JBool True), (''explanation'', JStr ''flood cover applies'')]
   \<and> validate_response_format
        (JDict [(''percentage_score'', JBool True), (''explanation'', JStr ''flood cover applies'')])
       = Inr [(''percentage_score'', JBool True),
              (''likelihood_ranking'', JStr ''Highly Unlikely''),
              (''explanation'', JStr (ensure_word_count ''flood cover applies'' 40 padding_words))]
   \<and> validate_response_format
        (JDict [(''percentage_score'', JBool True), (''explanation'', JStr ''flood cover applies'')])
       \<noteq> Inr [(''percentage_score'', JInt 50),
              (''likelihood_ranking'', JStr ''Unlikely''),
              (''explanation'', JStr (ensure_word_count ''flood cover applies'' 40 padding_words))]"
  by (simp add: score_unusable_def validate_dict dict_get_def valid_percentage_def
        likelihood_ranges_def)

text \<open>
  Claim C10. The validator reads two fields only. Two dicts that agree on
  \<open>percentage_score\<close> and on \<open>explanation\<close>, both lacking a field included, give the same
  outcome. Two dicts that agree on \<open>percentage_score\<close> alone keep the same score and get the
  same band in whatever they return. The validator returns whenever the explanation field is
  absent or a string, and the band it returns is the table's band of the score it kept: a
  \<open>likelihood_ranking\<close> in the input is never read.
\<close>

theorem validator_reads_two_fields_only:
  "(map_of d1 ''percentage_score'' = map_of d2 ''percentage_score''
      \<and> map_of d1 ''explanation'' = map_of d2 ''explanation''
      \<longrightarrow> validate_response_format (JDict d1) = validate_response_format (JDict d2))
   \<and> (map_of d1 ''percentage_score'' = map_of d2 ''percentage_score''
      \<longrightarrow> valid_percentage d1 = valid_percentage d2
        \<and> (\<forall>out1 out2. validate_response_format (JDict d1) = Inr out1
                       \<and> validate_response_format (JDict d2) = Inr out2
              \<longrightarrow> map_of out1 ''percentage_score'' = map_of out2 ''percentage_score''
                \<and> map_of out1 ''likelihood_ranking'' = map_of out2 ''likelihood_ranking''))
   \<and> validate_response_format (JDict d1) =
       (case dict_get d1 ''explanation'' (JStr default_explanation) of
          JStr e \<Rightarrow> Inr [(''percentage_score'', fst (valid_percentage d1)),
                         (''likelihood_ranking'', JStr (spec_band (snd (valid_percentage d1)))),
                         (''explanation'', JStr (ensure_word_count e 40 padding_words))]
        | _ \<Rightarrow> Inl AttributeError)
   \<and> rows_containing (snd (valid_percentage d1)) = [spec_band (snd (valid_percentage d1))]"
proof -
  obtain n where n: "snd (valid_percentage d1) = n" "0 \<le> n" "n \<le> 100"
    using valid_percentage_range[of d1] by blast
  have band: "find_ranking likelihood_ranges (snd (valid_percentage d) ) ''Somewhat Likely''
            = spec_band (snd (valid_percentage d))" for d
    using valid_percentage_range[of d] by (auto simp: find_ranking_table)
  have shape: "validate_response_format (JDict d) =
       (case dict_get d ''explanation'' (JStr default_explanation) of
          JStr e \<Rightarrow> Inr [(''percentage_score'', fst (valid_percentage d)),
                         (''likelihood_ranking'', JStr (spec_band (snd (valid_percentage d)))),
                         (''explanation'', JStr (ensure_word_count e 40 padding_words))]
        | _ \<Rightarrow> Inl AttributeError)" for d
    unfolding validate_dict band ..
  have both: "validate_response_format (JDict d1) = validate_response_format (JDict d2)"
    if "map_of d1 ''percentage_score'' = map_of d2 ''percentage_score''"
      and "map_of d1 ''explanation'' = map_of d2 ''explanation''"
  proof -
    have a: "valid_percentage d1 = valid_percentage d2"
      using that(1) by (rule valid_percentage_same_score)
    have b: "dict_get d1 ''explanation'' (JStr default_explanation)
           = dict_get d2 ''explanation'' (JStr default_explanation)"
      using that(2) by (simp add: dict_get_def)
    show ?thesis unfolding validate_dict a b ..
  qed
  have score: "map_of out1 ''percentage_score'' = map_of out2 ''percentage_score''
             \<and> map_of out1 ''likelihood_ranking'' = map_of out2 ''likelihood_ranking''"
    if "map_of d1 ''percentage_score'' = map_of d2 ''percentage_score''"
      and "validate_response_format (JDict d1) = Inr out1"
      and "validate_response_format (JDict d2) = Inr out2" for out1 out2
  proof -
    have a: "valid_percentage d1 = valid_percentage d2"
      using that(1) by (rule valid_percentage_same_score)
    from that(2) obtain e1 where
      "out1 = [(''percentage_score'', fst (valid_percentage d1)),
               (''likelihood_ranking'', JStr (spec_band (snd (valid_percentage d1)))),
               (''explanation'', JStr (ensure_word_count e1 40 padding_words))]"
      unfolding shape by (auto split: json.splits)
    moreover from that(3) obtain e2 where
      "out2 = [(''percentage_score'', fst (valid_percentage d2)),
               (''likelihood_ranking'', JStr (spec_band (snd (valid_percentage d2)))),
               (''explanation'', JStr (ensure_word_count e2 40 padding_words))]"
      unfolding shape by (auto split: json.splits)
    ultimately show ?thesis by (simp add: a)
  qed
  have rows: "rows_containing (snd (valid_percentage d1)) = [spec_band (snd (valid_percentage d1))]"
    using n by (simp add: rows_containing_def likelihood_ranges_def spec_band_def)
  from both score shape[of d1] rows valid_percentage_same_score[of d1 d2] show ?thesis
    by blast
qed

theorem validator_reads_two_fields_only_witness:
  "validate_response_format
      (JDict [(''percentage_score'', JInt 10), (''likelihood_ranking'', JStr ''Highly Likely''),
              (''explanation'', JStr ''storm damage is excluded'')])
   = validate_response_format
      (JDict [(''explanation'', JStr ''storm damage is excluded''), (''percentage_score'', JInt 10)])
   \<and> validate_response_format
      (JDict [(''percentage_score'', JInt 10), (''likelihood_ranking'', JStr ''Highly Likely''),
              (''explanation'', JStr ''storm damage is excluded'')])
   = Inr [(''percentage_score'', JInt 10),
          (''likelihood_ranking'', JStr ''Highly Unlikely''),
          (''explanation'', JStr (ensure_word_count ''storm damage is excluded'' 40 padding_words))]"
proof -
  let ?d1 = "[(''percentage_score'', JInt 10), (''likelihood_ranking'', JStr ''Highly Likely''),
              (''explanation'', JStr ''storm damage is excluded'')]"
  let ?d2 = "[(''explanation'', JStr ''storm damage is excluded''), (''percentage_score'', JInt 10)]"
  have h: "map_of ?d1 ''percentage_score'' = map_of ?d2 ''percentage_score''
         \<and> map_of ?d1 ''explanation'' = map_of ?d2 ''explanation''"
    by simp
  have v: "valid_percentage ?d1 = (JInt 10, 10)"
    by (simp add: valid_percentage_def dict_get_def)
  have e: "dict_get ?d1 ''explanation'' (JStr default_explanation) = JStr ''storm damage is excluded''"
    by (simp add: dict_get_def)
  from validator_reads_two_fields_only[of ?d1 ?d2] h
  have eq: "validate_response_format (JDict ?d1) = validate_response_format (JDict ?d2)"
    and sh: "validate_response_format (JDict ?d1) =
       (case dict_get ?d1 ''explanation'' (JStr default_explanation) of
          JStr e \<Rightarrow> Inr [(''percentage_score'', fst (valid_percentage ?d1)),
                         (''likelihood_ranking'', JStr (spec_band (snd (valid_percentage ?d1)))),
                         (''explanation'', JStr (ensure_word_count e 40 padding_words))]
        | _ \<Rightarrow> Inl AttributeError)"
    by blast+
  have "validate_response_format (JDict ?d1)
      = Inr [(''percentage_score'', JInt 10),
             (''likelihood_ranking'', JStr ''Highly Unlikely''),
             (''explanation'', JStr (ensure_word_count ''storm damage is excluded'' 40 padding_words))]"
    unfolding sh e v by (simp add: spec_band_def)
  with eq show ?thesis by simp
qed

section \<open>Word counts\<close>


lemma split_acc_word:
  "list_all (\<lambda>c. \<not> isspace c) w \<Longrightarrow> split_acc cur (w @ rest) = split_acc (cur @ w) rest"
  by (induction w arbitrary: cur) simp_all

lemma split_acc_words:
  "list_all (\<lambda>c. \<not> isspace c) cur \<Longrightarrow> list_all is_word (split_acc cur s)"
  by (induction cur s rule: split_acc.induct) (auto simp: is_word_def)

lemma split_ws_words: "list_all is_word (split_ws s)"
  by (simp add: split_ws_def split_acc_words)

lemma split_ws_join: "list_all is_word ws \<Longrightarrow> split_ws (join '' '' ws) = ws"
proof (induction "'' ''" ws rule: join.induct)
  case 1
  then show ?case by (simp add: split_ws_def)
next
  case (2 x)
  then have "split_acc [] (x @ []) = split_acc ([] @ x) []"
    by (intro split_acc_word) (simp add: is_word_def)
  with 2 show ?case by (simp add: split_ws_def is_word_def)
next
  case (3 x y ys)
  then have "split_acc [] (x @ '' '' @ join '' '' (y # ys)) = split_acc ([] @ x) ('' '' @ join '' '' (y # ys))"
    by (intro split_acc_word) (simp add: is_word_def)
  with 3 show ?case by (simp add: split_ws_def is_word_def isspace_def)
qed

lemma pad_loop_take:
  "pad_loop target words padding = words @ take (nat (target - int (length words))) padding"
proof (induction padding arbitrary: words)
  case Nil
  then show ?case by simp
next
  case (Cons p ps)
  show ?case
  proof (cases "int (length words) < target")
    case True
    then have "nat (target - int (length words)) = Suc (nat (target - int (length (words @ [p]))))"
      by simp
    with True Cons[of "words @ [p]"] show ?thesis by simp
  next
    case False
    then show ?thesis by simp
  qed
qed

lemma padding_words_are_words: "list_all is_word padding_words"
  by (simp add: padding_words_def is_word_def isspace_def)


lemma ensure_word_count_long:
  "40 < length (split_ws e) \<Longrightarrow>
     ensure_word_count e 40 padding_words = join '' '' (take 40 (split_ws e))"
  by (simp add: ensure_word_count_def slice_to_def Let_def)

lemma ensure_word_count_short:
  assumes "length (split_ws e) < 40"
  shows "ensure_word_count e 40 padding_words
       = join '' '' (split_ws e @ take (40 - length (split_ws e)) padding_words)"
proof -
  have n: "nat (40 - int (length (split_ws e))) = 40 - length (split_ws e)"
    by simp
  have "take 40 (split_ws e @ take (40 - length (split_ws e)) padding_words)
      = split_ws e @ take (40 - length (split_ws e)) padding_words"
    using assms by simp
  with assms show ?thesis
    by (simp add: ensure_word_count_def slice_to_def Let_def pad_loop_take n)
qed

lemma ensure_word_count_exact:
  "length (split_ws e) = 40 \<Longrightarrow> ensure_word_count e 40 padding_words = e"
  by (simp add: ensure_word_count_def Let_def)

lemma list_all_take: "list_all P xs \<Longrightarrow> list_all P (take n xs)"
  by (auto simp: list_all_iff dest: in_set_takeD)

lemma word_count_ensure:
  "split_ws (ensure_word_count e 40 padding_words) =
     (if 40 < length (split_ws e) then take 40 (split_ws e)
      else split_ws e @ take (40 - length (split_ws e)) padding_words)"
proof -
  consider "40 < length (split_ws e)" | "length (split_ws e) < 40" | "length (split_ws e) = 40"
    by linarith
  then show ?thesis
  proof cases
    case 1
    then show ?thesis
      by (simp add: ensure_word_count_long split_ws_join list_all_take split_ws_words)
  next
    case 2
    have "list_all is_word (split_ws e @ take (40 - length (split_ws e)) padding_words)"
      by (simp add: split_ws_words list_all_take padding_words_are_words)
    with 2 show ?thesis
      by (simp add: ensure_word_count_short split_ws_join)
  next
    case 3
    then show ?thesis by (simp add: ensure_word_count_exact)
  qed
qed

lemma length_padding_words: "length padding_words = 9"
  by (simp add: padding_words_def)

lemma word_count_ensure_length:
  "length (split_ws (ensure_word_count e 40 padding_words)) = min 40 (length (split_ws e) + 9)"
  by (auto simp: word_count_ensure length_padding_words)

text \<open>
  Claim C2. For an explanation string \<open>e\<close> in the dict, the validator returns, and the
  explanation it returns is \<open>ensure_word_count e 40 padding_words\<close>: the first 40 words joined
  by single spaces when \<open>e\<close> has more than 40 words, the words of \<open>e\<close> followed by as many of
  the nine padding words as fit below 40 when it has fewer, and \<open>e\<close> itself when it has
  exactly 40. The result never has more than 40 words, and has exactly 40 when \<open>e\<close> has at
  least 31.
\<close>

theorem explanation_length_normalised:
  assumes "map_of d ''explanation'' = Some (JStr e)"
  shows "\<exists>p r e'. validate_response_format (JDict d)
             = Inr [(''percentage_score'', p), (''likelihood_ranking'', r), (''explanation'', JStr e')]
     \<and> e' = ensure_word_count e 40 padding_words
     \<and> (40 < length (split_ws e) \<longrightarrow> e' = join '' '' (take 40 (split_ws e)))
     \<and> (length (split_ws e) < 40 \<longrightarrow>
           e' = join '' '' (split_ws e @ take (40 - length (split_ws e)) padding_words))
     \<and> (length (split_ws e) = 40 \<longrightarrow> e' = e)
     \<and> length (split_ws e') \<le> 40
     \<and> (1 \<le> length (split_ws e) \<and> 31 \<le> length (split_ws e) \<longrightarrow> length (split_ws e') = 40)"
proof -
  have "dict_get d ''explanation'' (JStr default_explanation) = JStr e"
    using assms by (simp add: dict_get_def)
  then have "validate_response_format (JDict d)
     = Inr [(''percentage_score'', fst (valid_percentage d)),
            (''likelihood_ranking'',
               JStr (find_ranking likelihood_ranges (snd (valid_percentage d)) ''Somewhat Likely'')),
            (''explanation'', JStr (ensure_word_count e 40 padding_words))]"
    by (simp add: validate_dict)
  moreover have "length (split_ws (ensure_word_count e 40 padding_words)) \<le> 40"
    by (simp add: word_count_ensure_length)
  moreover have "length (split_ws (ensure_word_count e 40 padding_words)) = 40"
    if "31 \<le> length (split_ws e)"
    using that by (simp add: word_count_ensure_length)
  ultimately show ?thesis
    using ensure_word_count_long[of e] ensure_word_count_short[of e] ensure_word_count_exact[of e]
    by simp
qed


theorem explanation_length_normalised_witness:
  "map_of [(''percentage_score'', JInt 70), (''explanation'', JStr ''storm  damage is excluded'')]
      ''explanation'' = Some (JStr ''storm  damage is excluded'')
   \<and> (\<exists>p r. validate_response_format
          (JDict [(''percentage_score'', JInt 70), (''explanation'', JStr ''storm  damage is excluded'')])
        = Inr [(''percentage_score'', p), (''likelihood_ranking'', r),
               (''explanation'', JStr
                  ''storm damage is excluded based on policy terms and conditions provided in documentation'')])
   \<and> length (split_ws
         ''storm damage is excluded based on policy terms and conditions provided in documentation'')
       = 13"
proof -
  let ?d = "[(''percentage_score'', JInt 70), (''explanation'', JStr ''storm  damage is excluded'')]"
  let ?e = "''storm  damage is excluded''"
  have h: "map_of ?d ''explanation'' = Some (JStr ?e)"
    by simp
  have n: "split_ws ?e = [''storm'', ''damage'', ''is'', ''excluded'']"
    by (simp add: split_ws_def isspace_def)
  from explanation_length_normalised[OF h] obtain p r e'
    where v: "validate_response_format (JDict ?d)
             = Inr [(''percentage_score'', p), (''likelihood_ranking'', r), (''explanation'', JStr e')]"
      and s: "length (split_ws ?e) < 40 \<longrightarrow>
                e' = join '' '' (split_ws ?e @ take (40 - length (split_ws ?e)) padding_words)"
    by blast
  from s have e': "e' =
      ''storm damage is excluded based on policy terms and conditions provided in documentation''"
    unfolding n by (simp add: padding_words_def)
  have "length (split_ws
         ''storm damage is excluded based on policy terms and conditions provided in documentation'')
       = 13"
    by (simp add: split_ws_def isspace_def)
  with v e' h show ?thesis by blast
qed

section \<open>Properties of the analysis pipeline\<close>



lemma analyze_coverage_cases:
  "analyze_coverage client json_loads pdf_content question insurance_type =
     (case analyze_try client json_loads (clean_and_structure_text pdf_content) question insurance_type of
        Inl e \<Rightarrow> Inr get_error_fallback_response
      | Inr validated_result \<Rightarrow> Inr validated_result)"
  by (simp add: analyze_coverage_def)


lemma fallback_words:
  "split_ws ''Unable to parse model response. Coverage assessment requires manual review of policy documentation for accurate determination of applicable terms and conditions.''
   = [''Unable'', ''to'', ''parse'', ''model'', ''response.'', ''Coverage'', ''assessment'',
      ''requires'', ''manual'', ''review'', ''of'', ''policy'', ''documentation'', ''for'',
      ''accurate'', ''determination'', ''of'', ''applicable'', ''terms'', ''and'', ''conditions.'']"
  by (simp add: split_ws_def isspace_def)

text \<open>
  The parse-failure answer has 21 words; the validator pads it with the nine padding words
  and replaces its band by the band of 50.
\<close>

lemma validate_fallback:
  "validate_response_format (JDict get_fallback_response) = Inr validated_fallback"
proof -
  have "ensure_word_count ''Unable to parse model response. Coverage assessment requires manual review of policy documentation for accurate determination of applicable terms and conditions.'' 40 padding_words
      = ''Unable to parse model response. Coverage assessment requires manual review of policy documentation for accurate determination of applicable terms and conditions. based on policy terms and conditions provided in documentation''"
    by (subst ensure_word_count_short) (simp_all add: fallback_words padding_words_def)
  then show ?thesis
    by (simp add: validate_dict get_fallback_response_def dict_get_def valid_percentage_def
          likelihood_ranges_def validated_fallback_def)
qed

lemma error_fallback_breaks_invariant: "\<not> band_matches_score get_error_fallback_response"
  by (simp add: get_error_fallback_response_def band_matches_score_def rows_containing_def
        likelihood_ranges_def)




text \<open>
  What the pipeline does with a completion text that does not parse. With no \<open>{...}\<close>
  substring the parse-failure answer goes through the validator like any parsed dict. With a
  \<open>{...}\<close> substring that does not parse either, the second \<open>json.loads\<close> raises inside the
  handler and the outer \<open>except\<close> gives the error answer.
\<close>

lemma parse_failure_answer:
  assumes "client (clean_and_structure_text pdf_content) question insurance_type
             = Content (Some content)"
      and "json_loads (strip content) = Inl JSONDecodeError"
      and "case search_braces (strip content) of
             None \<Rightarrow> True
           | Some json_match \<Rightarrow> json_loads json_match = Inl JSONDecodeError"
  shows "analyze_coverage client json_loads pdf_content question insurance_type
           = Inr (case search_braces (strip content) of
                    None \<Rightarrow> validated_fallback
                  | Some json_match \<Rightarrow> get_error_fallback_response)"
  using assms
  by (simp add: analyze_coverage_cases analyze_try_def validate_fallback split: option.splits)

text \<open>
  Claim C5 fails on the code at both kinds of text that do not parse. At
  \<open>not json at all\<close>, which has no braces, the answer is not the parse-failure answer as
  \<open>_get_fallback_response\<close> writes it: line 115 validates it, so the band Somewhat Likely is
  replaced by Unlikely and the sentence is padded to 30 words. At \<open>see {not json} here\<close> the
  substring \<open>{not json}\<close> is found and does not parse, and the answer is the error answer
  with its technical-error sentence.
\<close>

theorem parse_failure_fallback_not_returned_as_written:
  "search_braces (strip ''not json at all'') = None
   \<and> analyze_coverage (\<lambda>structured_content question insurance_type. Content (Some ''not json at all''))
       (\<lambda>text. Inl JSONDecodeError) ''policy text'' ''Is hail covered?'' ''home''
     = Inr validated_fallback
   \<and> validated_fallback \<noteq> get_fallback_response
   \<and> map_of validated_fallback ''likelihood_ranking'' = Some (JStr ''Unlikely'')
   \<and> map_of get_fallback_response ''likelihood_ranking'' = Some (JStr ''Somewhat Likely'')
   \<and> map_of validated_fallback ''explanation'' \<noteq> map_of get_fallback_response ''explanation''
   \<and> search_braces (strip ''see {not json} here'') = Some ''{not json}''
   \<and> analyze_coverage
         (\<lambda>structured_content question insurance_type. Content (Some ''see {not json} here''))
         (\<lambda>text. Inl JSONDecodeError) ''policy text'' ''Is hail covered?'' ''home''
     = Inr get_error_fallback_response
   \<and> get_error_fallback_response \<noteq> get_fallback_response"
proof -
  have s1: "strip ''not json at all'' = ''not json at all''"
    by (simp add: strip_def isspace_def)
  have b1: "search_braces ''not json at all'' = None"
    by (simp add: search_braces_def)
  have a1: "analyze_coverage (\<lambda>structured_content question insurance_type. Content (Some ''not json at all''))
       (\<lambda>text. Inl JSONDecodeError) ''policy text'' ''Is hail covered?'' ''home''
     = Inr validated_fallback"
    by (simp add: analyze_coverage_cases analyze_try_def s1 b1 validate_fallback)
  have s2: "strip ''see {not json} here'' = ''see {not json} here''"
    by (simp add: strip_def isspace_def)
  have b2: "search_braces ''see {not json} here'' = Some ''{not json}''"
    by (simp add: search_braces_def)
  have a2: "analyze_coverage
         (\<lambda>structured_content question insurance_type. Content (Some ''see {not json} here''))
         (\<lambda>text. Inl JSONDecodeError) ''policy text'' ''Is hail covered?'' ''home''
     = Inr get_error_fallback_response"
    by (simp add: analyze_coverage_cases analyze_try_def s2 b2)
  have d: "validated_fallback \<noteq> get_fallback_response"
      "map_of validated_fallback ''likelihood_ranking'' = Some (JStr ''Unlikely'')"
      "map_of get_fallback_response ''likelihood_ranking'' = Some (JStr ''Somewhat Likely'')"
      "map_of validated_fallback ''explanation'' \<noteq> map_of get_fallback_response ''explanation''"
      "get_error_fallback_response \<noteq> get_fallback_response"
    by (simp_all add: validated_fallback_def get_fallback_response_def get_error_fallback_response_def)
  show ?thesis
    unfolding s1 s2 b1 b2 a1 a2 using d by simp
qed

text \<open>
  Claim C6. When the completion call raises, \<open>analyze_coverage\<close> does not raise: it returns
  the error answer as written, with score 50, band Somewhat Likely and its own sentence,
  which is not the parse-failure answer.
\<close>

theorem invocation_error_gives_error_fallback:
  assumes "client (clean_and_structure_text pdf_content) question insurance_type = InvocationError"
  shows "analyze_coverage client json_loads pdf_content question insurance_type
           = Inr get_error_fallback_response
       \<and> map_of get_error_fallback_response ''percentage_score'' = Some (JInt 50)
       \<and> map_of get_error_fallback_response ''likelihood_ranking'' = Some (JStr ''Somewhat Likely'')
       \<and> map_of get_error_fallback_response ''explanation'' = Some (JStr ''Technical error occurred during analysis. Coverage determination requires manual review of policy terms conditions exclusions and applicable circumstances for accurate assessment.'')
       \<and> get_error_fallback_response \<noteq> get_fallback_response"
  using assms
  by (simp add: analyze_coverage_cases analyze_try_def get_error_fallback_response_def
        get_fallback_response_def)

theorem invocation_error_gives_error_fallback_witness:
  "analyze_coverage (\<lambda>structured_content question insurance_type. InvocationError)
       (\<lambda>text. Inr (JDict [(''percentage_score'', JInt 90)]))
       ''policy text'' ''Is hail covered?'' ''home''
     = Inr get_error_fallback_response"
  using invocation_error_gives_error_fallback
          [of "\<lambda>structured_content question insurance_type. InvocationError"
              "''policy text''" "''Is hail covered?''" "''home''"
              "\<lambda>text. Inr (JDict [(''percentage_score'', JInt 90)])"]
  by simp

section \<open>Properties of the extractor and of the request handler\<close>


lemma strip_empty_iff: "strip s = [] \<longleftrightarrow> list_all isspace s"
proof -
  have "strip s = [] \<longleftrightarrow> (\<forall>c \<in> set (dropWhile isspace s). isspace c)"
    by (simp add: strip_def dropWhile_eq_Nil_conv)
  also have "\<dots> \<longleftrightarrow> dropWhile isspace s = []"
  proof
    assume a: "\<forall>c \<in> set (dropWhile isspace s). isspace c"
    show "dropWhile isspace s = []"
    proof (rule ccontr)
      assume n: "dropWhile isspace s \<noteq> []"
      then have "\<not> isspace (hd (dropWhile isspace s))"
        by (rule hd_dropWhile)
      moreover from n have "hd (dropWhile isspace s) \<in> set (dropWhile isspace s)"
        by simp
      ultimately show False using a by blast
    qed
  qed (auto dest: set_dropWhileD)
  also have "\<dots> \<longleftrightarrow> list_all isspace s"
    by (simp add: dropWhile_eq_Nil_conv list_all_iff)
  finally show ?thesis .
qed

lemma extract_text_cases:
  "extract_text fitz pypdf2 pdf_bytes =
     (if primary_insufficient fitz pdf_bytes
      then ([PyMuPDF, PyPDF2], extract_text_pypdf2 pypdf2 pdf_bytes)
      else ([PyMuPDF], extract_text_pymupdf fitz pdf_bytes))"
proof (cases "extract_text_pymupdf fitz pdf_bytes")
  case (Inl e)
  then show ?thesis by (simp add: extract_text_def primary_insufficient_def)
next
  case (Inr t)
  have "strip [] = []" by (simp add: strip_def)
  then have "t \<noteq> []" if "50 < length (strip t)"
    using that by auto
  with Inr show ?thesis
    by (auto simp: extract_text_def primary_insufficient_def)
qed

text \<open>
  Claim C7, as the code has it. \<open>extract_text\<close> runs the second extractor exactly when the
  first one raised or gave a text that, stripped, has at most 50 characters, whitespace
  inside the text counted; it then returns what the second extractor gives. Otherwise it
  returns the text of the first extractor and the second one is not run.
\<close>

theorem extract_text_fallback_condition:
  "extract_text fitz pypdf2 pdf_bytes =
     (if primary_insufficient fitz pdf_bytes
      then ([PyMuPDF, PyPDF2], extract_text_pypdf2 pypdf2 pdf_bytes)
      else ([PyMuPDF], extract_text_pymupdf fitz pdf_bytes))
   \<and> (PyPDF2 \<in> set (fst (extract_text fitz pypdf2 pdf_bytes)) \<longleftrightarrow> primary_insufficient fitz pdf_bytes)"
  by (simp add: extract_text_cases)

theorem extract_text_fallback_condition_witness:
  "\<not> primary_insufficient
        (\<lambda>pdf_bytes. Inr [''a a a a a a a a a a a a a a a a a a a a a a a a a a a a'']) ''%PDF''
   \<and> extract_text (\<lambda>pdf_bytes. Inr [''a a a a a a a a a a a a a a a a a a a a a a a a a a a a''])
        (\<lambda>pdf_bytes. Inr [''second'']) ''%PDF''
     = ([PyMuPDF], Inr ''a a a a a a a a a a a a a a a a a a a a a a a a a a a a'')"
proof -
  have p: "extract_text_pymupdf
        (\<lambda>pdf_bytes. Inr [''a a a a a a a a a a a a a a a a a a a a a a a a a a a a'']) ''%PDF''
      = Inr ''a a a a a a a a a a a a a a a a a a a a a a a a a a a a''"
    by (simp add: extract_text_pymupdf_def page_texts_def strip_def isspace_def)
  have n: "\<not> primary_insufficient
        (\<lambda>pdf_bytes. Inr [''a a a a a a a a a a a a a a a a a a a a a a a a a a a a'']) ''%PDF''"
    unfolding primary_insufficient_def p by (simp add: strip_def isspace_def)
  from extract_text_fallback_condition
         [of "\<lambda>pdf_bytes. Inr [''a a a a a a a a a a a a a a a a a a a a a a a a a a a a'']"
             "\<lambda>pdf_bytes. Inr [''second'']" "''%PDF''"]
  show ?thesis using n unfolding p by simp
qed

text \<open>
  The claim as stated fails both ways. A first text of exactly 50 letters does not have
  fewer than 50 non-whitespace characters, and the second extractor is run. A first text of
  55 characters with 28 non-whitespace characters is returned without running the second
  extractor.
\<close>

theorem extract_text_threshold_counterexample:
  "extract_text_pymupdf (\<lambda>pdf_bytes. Inr [''aaaaaaaaaaaaaaaaaaaaaaaaaaaaaaaaaaaaaaaaaaaaaaaaaa'']) ''%PDF''
      = Inr ''aaaaaaaaaaaaaaaaaaaaaaaaaaaaaaaaaaaaaaaaaaaaaaaaaa''
   \<and> non_whitespace_count ''aaaaaaaaaaaaaaaaaaaaaaaaaaaaaaaaaaaaaaaaaaaaaaaaaa'' = 50
   \<and> fst (extract_text (\<lambda>pdf_bytes. Inr [''aaaaaaaaaaaaaaaaaaaaaaaaaaaaaaaaaaaaaaaaaaaaaaaaaa''])
            (\<lambda>pdf_bytes. Inr [''second'']) ''%PDF'') = [PyMuPDF, PyPDF2]
   \<and> extract_text_pymupdf (\<lambda>pdf_bytes. Inr [''a a a a a a a a a a a a a a a a a a a a a a a a a a a a'']) ''%PDF''
      = Inr ''a a a a a a a a a a a a a a a a a a a a a a a a a a a a''
   \<and> non_whitespace_count ''a a a a a a a a a a a a a a a a a a a a a a a a a a a a'' = 28
   \<and> fst (extract_text (\<lambda>pdf_bytes. Inr [''a a a a a a a a a a a a a a a a a a a a a a a a a a a a''])
            (\<lambda>pdf_bytes. Inr [''second'']) ''%PDF'') = [PyMuPDF]"
  by (simp add: extract_text_def extract_text_pymupdf_def page_texts_def strip_def isspace_def
        non_whitespace_count_def)


lemma endpoint_try_reads_first:
  "take 2 (fst (endpoint_try fitz pypdf2 client json_loads coverage_response
                  policy_disclosure schedule_coverage insurance_type question))
     = [ReadBytes PolicyDisclosure, ReadBytes ScheduleOfCoverage]"
  by (simp add: endpoint_try_def Let_def split: prod.splits sum.splits)

text \<open>
  Claim C9. A request with a file part that does not declare \<open>application/pdf\<close>, or with a
  question that is empty or all whitespace, is answered with status 400 and no effect at
  all: no bytes read, no extractor run, no analysis. A request that passes the three checks
  starts by reading both files. \<open>validate_question_content\<close> rejects the same questions.
\<close>

theorem invalid_request_rejected_before_reading:
  "(request_rejected policy_disclosure schedule_coverage question \<longrightarrow>
      (\<exists>d. analyze_coverage_endpoint fitz pypdf2 client json_loads coverage_response str_exc
              policy_disclosure schedule_coverage insurance_type question
            = ([], Inl (HTTPException 400 d))))
   \<and> (\<not> request_rejected policy_disclosure schedule_coverage question \<longrightarrow>
        take 2 (fst (analyze_coverage_endpoint fitz pypdf2 client json_loads coverage_response str_exc
                       policy_disclosure schedule_coverage insurance_type question))
          = [ReadBytes PolicyDisclosure, ReadBytes ScheduleOfCoverage])
   \<and> (list_all isspace question \<longrightarrow>
        validate_question_content question = Inl (HTTPException 400 ''Question cannot be empty''))"
proof (intro conjI impI)
  assume "request_rejected policy_disclosure schedule_coverage question"
  then show "\<exists>d. analyze_coverage_endpoint fitz pypdf2 client json_loads coverage_response str_exc
              policy_disclosure schedule_coverage insurance_type question
            = ([], Inl (HTTPException 400 d))"
    by (auto simp: request_rejected_def analyze_coverage_endpoint_def strip_empty_iff)
next
  assume "\<not> request_rejected policy_disclosure schedule_coverage question"
  then have "analyze_coverage_endpoint fitz pypdf2 client json_loads coverage_response str_exc
               policy_disclosure schedule_coverage insurance_type question
      = (case endpoint_try fitz pypdf2 client json_loads coverage_response
                policy_disclosure schedule_coverage insurance_type question of
           (effects, Inl e) \<Rightarrow> (effects, Inl (processing_error str_exc e))
         | (effects, Inr response) \<Rightarrow> (effects, Inr response))"
    by (simp add: request_rejected_def analyze_coverage_endpoint_def strip_empty_iff)
  then have "fst (analyze_coverage_endpoint fitz pypdf2 client json_loads coverage_response str_exc
               policy_disclosure schedule_coverage insurance_type question)
      = fst (endpoint_try fitz pypdf2 client json_loads coverage_response
                policy_disclosure schedule_coverage insurance_type question)"
    by (simp split: prod.splits sum.splits)
  then show "take 2 (fst (analyze_coverage_endpoint fitz pypdf2 client json_loads coverage_response str_exc
                       policy_disclosure schedule_coverage insurance_type question))
          = [ReadBytes PolicyDisclosure, ReadBytes ScheduleOfCoverage]"
    by (simp add: endpoint_try_reads_first)
next
  assume "list_all isspace question"
  then show "validate_question_content question = Inl (HTTPException 400 ''Question cannot be empty'')"
    by (simp add: validate_question_content_def strip_empty_iff)
qed

theorem invalid_request_rejected_before_reading_witness:
  "request_rejected \<lparr>content_type = Some ''application/pdf'', file_bytes = ''%PDF-1''\<rparr>
                    \<lparr>content_type = Some ''application/pdf'', file_bytes = ''%PDF-2''\<rparr>
                    [CHR '' '', CHR 0x09, CHR 0x0A]
   \<and> (\<exists>d. analyze_coverage_endpoint (\<lambda>b. Inr [b]) (\<lambda>b. Inr [b]) (\<lambda>s q t. InvocationError)
          (\<lambda>t. Inl JSONDecodeError) (\<lambda>d. Inr d) (\<lambda>e. ''error'')
          \<lparr>content_type = Some ''application/pdf'', file_bytes = ''%PDF-1''\<rparr>
          \<lparr>content_type = Some ''application/pdf'', file_bytes = ''%PDF-2''\<rparr>
          ''home'' [CHR '' '', CHR 0x09, CHR 0x0A]
        = ([], Inl (HTTPException 400 d)))"
proof -
  have r: "request_rejected \<lparr>content_type = Some ''application/pdf'', file_bytes = ''%PDF-1''\<rparr>
                    \<lparr>content_type = Some ''application/pdf'', file_bytes = ''%PDF-2''\<rparr>
                    [CHR '' '', CHR 0x09, CHR 0x0A]"
    by (simp add: request_rejected_def isspace_def)
  from invalid_request_rejected_before_reading
         [of "\<lparr>content_type = Some ''application/pdf'', file_bytes = ''%PDF-1''\<rparr>"
             "\<lparr>content_type = Some ''application/pdf'', file_bytes = ''%PDF-2''\<rparr>"
             "[CHR '' '', CHR 0x09, CHR 0x0A]"
             "\<lambda>b. Inr [b]" "\<lambda>b. Inr [b]" "\<lambda>s q t. InvocationError"
             "\<lambda>t. Inl JSONDecodeError" "\<lambda>d. Inr d" "\<lambda>e. ''error''" "''home''"] r
  show ?thesis by blast
qed

text \<open>The same request with a question in it is read and processed.\<close>

lemma valid_request_is_processed:
  "fst (analyze_coverage_endpoint (\<lambda>b. Inr [b]) (\<lambda>b. Inr [b]) (\<lambda>s q t. InvocationError)
          (\<lambda>t. Inl JSONDecodeError) (\<lambda>d. Inr d) (\<lambda>e. ''error'')
          \<lparr>content_type = Some ''application/pdf'', file_bytes = ''%PDF-1''\<rparr>
          \<lparr>content_type = Some ''application/pdf'', file_bytes = ''%PDF-2''\<rparr>
          ''home'' ''Is hail covered?'')
   = [ReadBytes PolicyDisclosure, ReadBytes ScheduleOfCoverage,
      RunExtractor PolicyDisclosure PyMuPDF, RunExtractor PolicyDisclosure PyPDF2,
      RunExtractor ScheduleOfCoverage PyMuPDF, RunExtractor ScheduleOfCoverage PyPDF2,
      CallAnalyzer]"
  by (simp add: analyze_coverage_endpoint_def endpoint_try_def extract_text_def
        extract_text_pymupdf_def extract_text_pypdf2_def page_texts_def strip_def isspace_def
        analyze_coverage_cases analyze_try_def get_error_fallback_response_def)

section \<open>Structuring a structured text\<close>

subsection \<open>Whitespace and stripping\<close>

lemma isspace_newline [simp]: "isspace (CHR 0x0A)"
  by (simp add: isspace_def)

lemma isspace_space [simp]: "isspace (CHR '' '')"
  by (simp add: isspace_def)

lemma not_isspace_equals [simp]: "\<not> isspace (CHR ''='')"
  by (simp add: isspace_def)

lemma strip_Nil [simp]: "strip [] = []"
  by (simp add: strip_def)

lemma strip_decomp: "\<exists>p q. s = p @ strip s @ q"
proof -
  let ?y = "dropWhile isspace s"
  have "rev (dropWhile isspace (rev ?y)) @ rev (takeWhile isspace (rev ?y))
      = rev (takeWhile isspace (rev ?y) @ dropWhile isspace (rev ?y))"
    by (simp only: rev_append)
  also have "\<dots> = rev (rev ?y)"
    by (simp only: takeWhile_dropWhile_id)
  finally have "?y = strip s @ rev (takeWhile isspace (rev ?y))"
    by (simp add: strip_def)
  moreover have "s = takeWhile isspace s @ ?y"
    by simp
  ultimately have "s = takeWhile isspace s @ strip s @ rev (takeWhile isspace (rev ?y))"
    by simp
  then show ?thesis by blast
qed

lemma set_strip_subset: "set (strip s) \<subseteq> set s"
proof -
  obtain p q where "s = p @ strip s @ q"
    using strip_decomp by blast
  then have "set s = set p \<union> set (strip s) \<union> set q"
    by (metis set_append sup_assoc)
  then show ?thesis by blast
qed

lemma last_strip: "strip s \<noteq> [] \<Longrightarrow> \<not> isspace (last (strip s))"
proof -
  assume a: "strip s \<noteq> []"
  then have n: "dropWhile isspace (rev (dropWhile isspace s)) \<noteq> []"
    by (simp add: strip_def)
  have "last (strip s) = hd (dropWhile isspace (rev (dropWhile isspace s)))"
    using n by (simp add: strip_def last_rev)
  with hd_dropWhile[OF n] show ?thesis by simp
qed

lemma last_dropWhile_same: "dropWhile P xs \<noteq> [] \<Longrightarrow> last (dropWhile P xs) = last xs"
  by (induction xs) (auto split: if_splits)

lemma hd_strip: "strip s \<noteq> [] \<Longrightarrow> \<not> isspace (hd (strip s))"
proof -
  assume a: "strip s \<noteq> []"
  let ?y = "dropWhile isspace s"
  from a have n: "dropWhile isspace (rev ?y) \<noteq> []"
    by (simp add: strip_def)
  have y: "?y \<noteq> []"
  proof
    assume "?y = []"
    then have "dropWhile isspace (rev ?y) = []"
      by (simp only: rev.simps dropWhile.simps)
    with n show False ..
  qed
  have "hd (strip s) = last (dropWhile isspace (rev ?y))"
    using n by (simp add: strip_def hd_rev)
  also have "\<dots> = last (rev ?y)"
    using n by (rule last_dropWhile_same)
  also have "\<dots> = hd ?y"
    using y by (simp add: last_rev)
  finally show ?thesis
    using hd_dropWhile[OF y] by simp
qed

lemma strip_solid:
  assumes "s \<noteq> []" and "\<not> isspace (hd s)" and "\<not> isspace (last s)"
  shows "strip s = s"
proof -
  from assms(1,2) have a: "dropWhile isspace s = s"
    by (cases s) simp_all
  from assms(1,3) have "dropWhile isspace (rev s) = rev s"
    by (cases "rev s") (simp_all add: last_rev[symmetric] hd_rev)
  with a show ?thesis by (simp add: strip_def)
qed

subsection \<open>Runs of spaces\<close>

lemma no_double_space_Cons:
  "no_double_space (c # s) \<longleftrightarrow>
     no_double_space s \<and> (c \<noteq> CHR '' '' \<or> s = [] \<or> hd s \<noteq> CHR '' '')"
  by (cases s) auto

lemma no_double_space_append:
  "no_double_space (a @ b) \<longleftrightarrow>
     no_double_space a \<and> no_double_space b
     \<and> (a = [] \<or> b = [] \<or> last a \<noteq> CHR '' '' \<or> hd b \<noteq> CHR '' '')"
proof (induction a)
  case Nil
  then show ?case by simp
next
  case (Cons c a)
  show ?case
  proof (cases a)
    case Nil
    then show ?thesis by (auto simp: no_double_space_Cons)
  next
    case (Cons d a')
    with Cons.IH show ?thesis by simp
  qed
qed

lemma collapse_spaces_hd:
  "s \<noteq> [] \<Longrightarrow> collapse_spaces s \<noteq> [] \<and> hd (collapse_spaces s) = hd s"
  by (cases s) auto

lemma no_double_space_collapse: "no_double_space (collapse_spaces s)"
proof (induction s rule: collapse_spaces.induct)
  case 1
  then show ?case by simp
next
  case (2 c cs)
  show ?case
  proof (cases "c = CHR '' ''")
    case True
    define d where "d = dropWhile (\<lambda>c. c = CHR '' '') cs"
    have step: "collapse_spaces (c # cs) = CHR '' '' # collapse_spaces d"
      using True by (simp add: d_def)
    have ih: "no_double_space (collapse_spaces d)"
      unfolding d_def by (rule 2(1)[OF True])
    have "collapse_spaces d = [] \<or> hd (collapse_spaces d) \<noteq> CHR '' ''"
    proof (cases "d = []")
      case True
      then show ?thesis by simp
    next
      case False
      then have "hd d \<noteq> CHR '' ''"
        unfolding d_def by (rule hd_dropWhile)
      moreover have "hd (collapse_spaces d) = hd d"
        using collapse_spaces_hd[OF False] by blast
      ultimately show ?thesis by simp
    qed
    with ih show ?thesis
      unfolding step no_double_space_Cons by blast
  next
    case False
    then have step: "collapse_spaces (c # cs) = c # collapse_spaces cs"
      by simp
    from 2(2)[OF False] False show ?thesis
      unfolding step no_double_space_Cons by blast
  qed
qed

lemma collapse_spaces_id: "no_double_space s \<Longrightarrow> collapse_spaces s = s"
proof (induction s rule: collapse_spaces.induct)
  case 1
  then show ?case by simp
next
  case (2 c cs)
  show ?case
  proof (cases "c = CHR '' ''")
    case True
    from 2(3) True have "cs = [] \<or> hd cs \<noteq> CHR '' ''"
      by (simp add: no_double_space_Cons)
    then have d: "dropWhile (\<lambda>c. c = CHR '' '') cs = cs"
      by (cases cs) auto
    from 2(3) have "no_double_space cs"
      by (simp add: no_double_space_Cons)
    with 2(1)[OF True] d True show ?thesis by simp
  next
    case False
    from 2(3) have "no_double_space cs"
      by (simp add: no_double_space_Cons)
    with 2(2)[OF False] False show ?thesis by simp
  qed
qed

subsection \<open>Splitting into lines\<close>

lemma split_on_acc_line:
  "sep \<notin> set l \<Longrightarrow> split_on_acc sep cur (l @ rest) = split_on_acc sep (cur @ l) rest"
  by (induction l arbitrary: cur) auto

lemma split_on_acc_no_sep:
  "sep \<notin> set cur \<Longrightarrow> x \<in> set (split_on_acc sep cur s) \<Longrightarrow> sep \<notin> set x"
proof (induction s arbitrary: cur)
  case Nil
  then show ?case by simp
next
  case (Cons c cs)
  show ?case
  proof (cases "c = sep")
    case True
    with Cons.prems have "x = cur \<or> x \<in> set (split_on_acc sep [] cs)"
      by simp
    then show ?thesis
      using Cons.prems(1) Cons.IH[of "[]"] by auto
  next
    case False
    with Cons.prems have "sep \<notin> set (cur @ [c])" "x \<in> set (split_on_acc sep (cur @ [c]) cs)"
      by simp_all
    then show ?thesis
      by (rule Cons.IH)
  qed
qed

lemma split_on_acc_no_double_space:
  "no_double_space (cur @ s) \<Longrightarrow> x \<in> set (split_on_acc sep cur s) \<Longrightarrow> no_double_space x"
proof (induction s arbitrary: cur)
  case Nil
  then show ?case by simp
next
  case (Cons c cs)
  show ?case
  proof (cases "c = sep")
    case True
    from Cons.prems(1) have "no_double_space cur" "no_double_space ([] @ cs)"
      by (simp_all add: no_double_space_append no_double_space_Cons)
    with Cons.IH[of "[]"] Cons.prems(2) True show ?thesis by auto
  next
    case False
    from Cons.prems(1) have "no_double_space ((cur @ [c]) @ cs)"
      by simp
    with Cons.IH[of "cur @ [c]"] Cons.prems(2) False show ?thesis by auto
  qed
qed

subsection \<open>Blank lines\<close>

lemma sub_blank_lines_line:
  "CHR 0x0A \<notin> set l \<Longrightarrow> sub_blank_lines (l @ rest) = l @ sub_blank_lines rest"
  by (induction l) auto

lemma sub_blank_lines_newline:
  "rest = [] \<or> \<not> isspace (hd rest) \<Longrightarrow>
     sub_blank_lines (CHR 0x0A # rest) = CHR 0x0A # sub_blank_lines rest"
  by (cases rest) auto

lemma sub_blank_lines_blank:
  "rest = [] \<or> \<not> isspace (hd rest) \<Longrightarrow>
     sub_blank_lines (CHR 0x0A # CHR 0x0A # rest) = CHR 0x0A # CHR 0x0A # sub_blank_lines rest"
  by (cases rest) (auto simp: after_last_newline_def)

subsection \<open>Substrings\<close>

lemma contains_Nil [simp]: "contains [] s"
  by (cases s) (simp_all add: starts_with_def)

lemma starts_with_append: "starts_with k s \<Longrightarrow> starts_with k (s @ q)"
proof -
  assume a: "starts_with k s"
  then have "length (take (length k) s) = length k"
    by (simp add: starts_with_def)
  then have "length k \<le> length s"
    by simp
  with a show ?thesis by (simp add: starts_with_def)
qed

lemma contains_append_right: "contains k s \<Longrightarrow> contains k (s @ q)"
proof (induction s)
  case Nil
  then show ?case by simp
next
  case (Cons c cs)
  from Cons.prems have "starts_with k (c # cs) \<or> contains k cs"
    by simp
  then show ?case
  proof
    assume "starts_with k (c # cs)"
    then have "starts_with k ((c # cs) @ q)"
      by (rule starts_with_append)
    then show ?thesis by simp
  next
    assume "contains k cs"
    then have "contains k (cs @ q)"
      by (rule Cons.IH)
    then show ?thesis by simp
  qed
qed

lemma contains_append_left: "contains k s \<Longrightarrow> contains k (p @ s)"
  by (induction p) auto

lemma contains_inside: "contains k s \<Longrightarrow> contains k (p @ s @ q)"
  by (simp add: contains_append_left contains_append_right)

subsection \<open>Kept lines\<close>

lemma wrap_marker_tidy: "tidy l \<Longrightarrow> tidy (wrap_marker l)"
proof -
  assume t: "tidy l"
  then have l: "l \<noteq> []" "CHR 0x0A \<notin> set l" "\<not> isspace (hd l)" "\<not> isspace (last l)"
      "no_double_space l"
    by (simp_all add: tidy_def)
  from l(3,4) have sp: "hd l \<noteq> CHR '' ''" "last l \<noteq> CHR '' ''"
    by auto
  have "no_double_space (l @ '' ==='')"
    by (subst no_double_space_append) (use l sp in simp)
  then have "no_double_space (''=== '' @ (l @ '' ===''))"
    by (subst no_double_space_append) (use l sp in \<open>simp add: hd_append\<close>)
  then have "no_double_space (''=== '' @ l @ '' ==='')"
    by simp
  moreover have "last (''=== '' @ l @ '' ==='') = CHR ''=''"
    by simp
  ultimately show ?thesis
    using l(2) by (simp add: tidy_def wrap_marker_def)
qed

lemma strip_tidy: "tidy l \<Longrightarrow> strip l = l"
  by (simp add: tidy_def strip_solid)

lemma lower_append: "lower (a @ b) = lower a @ lower b"
  by (simp add: lower_def)

lemma header_wrap_marker:
  "is_section_header secs l \<Longrightarrow> is_section_header secs (wrap_marker l)"
proof -
  assume "is_section_header secs l"
  then obtain k where k: "k \<in> set secs" "contains k (lower l)"
    by (auto simp: is_section_header_def list_ex_iff)
  from k(2) have "contains k (lower ''=== '' @ lower l @ lower '' ==='')"
    by (rule contains_inside)
  then have "contains k (lower (wrap_marker l))"
    by (simp only: wrap_marker_def lower_append)
  with k(1) show ?thesis
    by (auto simp: is_section_header_def list_ex_iff)
qed

text \<open>The first pass, line by line.\<close>

lemma structure_lines_map:
  "structure_lines secs lines
     = map (structured_line secs) (filter (\<lambda>line. line \<noteq> []) (map strip lines))"
  by (induction lines) (simp_all add: structured_line_def wrap_marker_def Let_def)

lemma join_rendered:
  "join [CHR 0x0A] (map (structured_line secs) (l # ls)) = structured_line secs l @ rendered secs ls"
  by (induction ls arbitrary: l) (simp_all add: rendered_def)

lemma tidy_facts:
  assumes "tidy l"
  shows "l \<noteq> []" and "CHR 0x0A \<notin> set l" and "\<not> isspace (hd l)" and "\<not> isspace (last l)"
    and "no_double_space l" and "hd l \<noteq> CHR '' ''" and "last l \<noteq> CHR '' ''"
  using assms by (auto simp: tidy_def)

lemma hd_wrap_marker: "hd (wrap_marker l @ rest) = CHR ''=''"
  by (simp add: wrap_marker_def)

lemma rendered_Cons:
  "rendered secs (l # ls) = CHR 0x0A # structured_line secs l @ rendered secs ls"
  by (simp add: rendered_def)

lemma rendered_Nil [simp]: "rendered secs [] = []"
  by (simp add: rendered_def)

subsection \<open>The passes leave a structured text as it is\<close>

lemma sub_blank_lines_structured_line:
  assumes "tidy l" and "sub_blank_lines rest = rest"
  shows "sub_blank_lines (structured_line secs l @ rest) = structured_line secs l @ rest"
proof (cases "is_section_header secs l")
  case True
  have w: "CHR 0x0A \<notin> set (wrap_marker l)"
    using tidy_facts(2)[OF wrap_marker_tidy[OF assms(1)]] .
  have "sub_blank_lines (CHR 0x0A # (wrap_marker l @ rest))
      = CHR 0x0A # sub_blank_lines (wrap_marker l @ rest)"
    by (rule sub_blank_lines_newline) (simp add: hd_wrap_marker)
  also have "sub_blank_lines (wrap_marker l @ rest) = wrap_marker l @ sub_blank_lines rest"
    using w by (rule sub_blank_lines_line)
  finally show ?thesis
    using True assms(2) by (simp add: structured_line_def)
next
  case False
  have "sub_blank_lines (l @ rest) = l @ sub_blank_lines rest"
    using tidy_facts(2)[OF assms(1)] by (rule sub_blank_lines_line)
  with False assms(2) show ?thesis
    by (simp add: structured_line_def)
qed

lemma sub_blank_lines_rendered:
  "\<forall>l \<in> set ls. tidy l \<Longrightarrow> sub_blank_lines (rendered secs ls) = rendered secs ls"
proof (induction ls)
  case Nil
  then show ?case by simp
next
  case (Cons l ls)
  then have t: "tidy l" and ih: "sub_blank_lines (rendered secs ls) = rendered secs ls"
    by simp_all
  show ?case
  proof (cases "is_section_header secs l")
    case True
    have w: "CHR 0x0A \<notin> set (wrap_marker l)"
      using tidy_facts(2)[OF wrap_marker_tidy[OF t]] .
    have "sub_blank_lines (CHR 0x0A # CHR 0x0A # (wrap_marker l @ rendered secs ls))
        = CHR 0x0A # CHR 0x0A # sub_blank_lines (wrap_marker l @ rendered secs ls)"
      by (rule sub_blank_lines_blank) (simp add: hd_wrap_marker)
    also have "sub_blank_lines (wrap_marker l @ rendered secs ls)
        = wrap_marker l @ sub_blank_lines (rendered secs ls)"
      using w by (rule sub_blank_lines_line)
    finally show ?thesis
      using True ih by (simp add: rendered_Cons structured_line_def)
  next
    case False
    have "sub_blank_lines (CHR 0x0A # (l @ rendered secs ls))
        = CHR 0x0A # sub_blank_lines (l @ rendered secs ls)"
      by (rule sub_blank_lines_newline) (use tidy_facts(1,3)[OF t] in simp)
    also have "sub_blank_lines (l @ rendered secs ls) = l @ sub_blank_lines (rendered secs ls)"
      using tidy_facts(2)[OF t] by (rule sub_blank_lines_line)
    finally show ?thesis
      using False ih by (simp add: rendered_Cons structured_line_def)
  qed
qed

lemma structured_line_spaces:
  assumes "tidy l"
  shows "no_double_space (structured_line secs l)" and "structured_line secs l \<noteq> []"
    and "last (structured_line secs l) \<noteq> CHR '' ''"
proof -
  note w = tidy_facts[OF wrap_marker_tidy[OF assms]]
  note t = tidy_facts[OF assms]
  show "no_double_space (structured_line secs l)"
    using w(5) t(5) by (simp add: structured_line_def no_double_space_Cons)
  show "structured_line secs l \<noteq> []"
    using t(1) by (simp add: structured_line_def)
  show "last (structured_line secs l) \<noteq> CHR '' ''"
    using w(1,7) t(7) by (simp add: structured_line_def)
qed

lemma no_double_space_rendered:
  "\<forall>l \<in> set ls. tidy l \<Longrightarrow> no_double_space (rendered secs ls)"
proof (induction ls)
  case Nil
  then show ?case by simp
next
  case (Cons l ls)
  then have t: "tidy l" and ih: "no_double_space (rendered secs ls)"
    by simp_all
  have "no_double_space (structured_line secs l @ rendered secs ls)"
    by (subst no_double_space_append) (use structured_line_spaces[OF t] ih in simp)
  then show ?case
    by (simp add: rendered_Cons no_double_space_Cons)
qed

lemma split_on_acc_rendered:
  "\<forall>l \<in> set ls. tidy l \<Longrightarrow>
     split_on_acc (CHR 0x0A) cur (rendered secs ls) = cur # split_pieces secs ls"
proof (induction ls arbitrary: cur)
  case Nil
  then show ?case by (simp add: split_pieces_def)
next
  case (Cons l ls)
  then have t: "tidy l"
    and ih: "\<And>cur. split_on_acc (CHR 0x0A) cur (rendered secs ls) = cur # split_pieces secs ls"
    by simp_all
  show ?case
  proof (cases "is_section_header secs l")
    case True
    have "split_on_acc (CHR 0x0A) [] (wrap_marker l @ rendered secs ls)
        = split_on_acc (CHR 0x0A) ([] @ wrap_marker l) (rendered secs ls)"
      using tidy_facts(2)[OF wrap_marker_tidy[OF t]] by (rule split_on_acc_line)
    with True ih show ?thesis
      by (simp add: rendered_Cons structured_line_def split_pieces_def)
  next
    case False
    have "split_on_acc (CHR 0x0A) [] (l @ rendered secs ls)
        = split_on_acc (CHR 0x0A) ([] @ l) (rendered secs ls)"
      using tidy_facts(2)[OF t] by (rule split_on_acc_line)
    with False ih show ?thesis
      by (simp add: rendered_Cons structured_line_def split_pieces_def)
  qed
qed

lemma split_on_structured:
  assumes "tidy l" and "\<forall>l \<in> set ls. tidy l"
  shows "split_on (CHR 0x0A) (structured_line secs l @ rendered secs ls) = split_pieces secs (l # ls)"
proof -
  have "split_on_acc (CHR 0x0A) [] (rendered secs (l # ls)) = [] # split_pieces secs (l # ls)"
    using assms by (intro split_on_acc_rendered) simp
  then show ?thesis
    by (simp add: rendered_Cons split_on_def)
qed

lemma kept_pieces:
  "\<forall>l \<in> set ls. tidy l \<Longrightarrow>
     filter (\<lambda>line. line \<noteq> []) (map strip (split_pieces secs ls))
       = map (\<lambda>l. if is_section_header secs l then wrap_marker l else l) ls"
proof (induction ls)
  case Nil
  then show ?case by (simp add: split_pieces_def)
next
  case (Cons l ls)
  then have t: "tidy l"
    and ih: "filter (\<lambda>line. line \<noteq> []) (map strip (split_pieces secs ls))
       = map (\<lambda>l. if is_section_header secs l then wrap_marker l else l) ls"
    by simp_all
  have "strip l = l" "l \<noteq> []" "strip (wrap_marker l) = wrap_marker l" "wrap_marker l \<noteq> []"
    using t wrap_marker_tidy[OF t] by (simp_all add: strip_tidy tidy_facts(1))
  with ih show ?case
    by (simp add: split_pieces_def)
qed

subsection \<open>The two passes\<close>

lemma no_double_space_strip: "no_double_space s \<Longrightarrow> no_double_space (strip s)"
proof -
  assume a: "no_double_space s"
  obtain p q where pq: "s = p @ strip s @ q"
    using strip_decomp by blast
  have "no_double_space (p @ strip s @ q)"
    by (subst pq[symmetric]) (rule a)
  then show ?thesis
    unfolding no_double_space_append by blast
qed

lemma content_lines_tidy:
  assumes "l \<in> set (content_lines text)"
  shows "tidy l"
proof -
  define cleaned where "cleaned = collapse_spaces (sub_blank_lines text)"
  from assms obtain x where x: "x \<in> set (split_on_acc (CHR 0x0A) [] cleaned)"
      and l: "l = strip x" "strip x \<noteq> []"
    by (auto simp: content_lines_def split_on_def cleaned_def)
  have "CHR 0x0A \<notin> set x"
    by (rule split_on_acc_no_sep[of "CHR 0x0A" "[]"]) (use x in simp_all)
  then have a: "CHR 0x0A \<notin> set (strip x)"
    using set_strip_subset[of x] by blast
  have "no_double_space ([] @ cleaned)"
    by (simp add: cleaned_def no_double_space_collapse)
  then have "no_double_space x"
    using x by (rule split_on_acc_no_double_space)
  then have b: "no_double_space (strip x)"
    by (rule no_double_space_strip)
  show ?thesis
    unfolding l(1) tidy_def
    using a b l(2) hd_strip[OF l(2)] last_strip[OF l(2)] by simp
qed

lemma first_pass:
  "clean_and_structure_text text
     = join [CHR 0x0A] (map (structured_line sections) (content_lines text))"
  by (simp add: clean_and_structure_text_def content_lines_def structure_lines_map Let_def)

lemma content_lines_of_structured:
  assumes "\<forall>l \<in> set ls. tidy l"
  shows "content_lines (join [CHR 0x0A] (map (structured_line sections) ls))
       = map (\<lambda>l. if is_section_header sections l then wrap_marker l else l) ls"
proof (cases ls)
  case Nil
  then show ?thesis
    by (simp add: content_lines_def split_on_def)
next
  case (Cons l ls')
  with assms have t: "tidy l" and ts: "\<forall>l \<in> set ls'. tidy l"
    by simp_all
  let ?o = "structured_line sections l @ rendered sections ls'"
  have o: "join [CHR 0x0A] (map (structured_line sections) (l # ls')) = ?o"
    by (rule join_rendered)
  have a: "sub_blank_lines ?o = ?o"
    using t sub_blank_lines_rendered[OF ts] by (rule sub_blank_lines_structured_line)
  have "no_double_space ?o"
    by (subst no_double_space_append)
       (use structured_line_spaces[OF t] no_double_space_rendered[OF ts] in simp)
  then have b: "collapse_spaces ?o = ?o"
    by (rule collapse_spaces_id)
  have c: "split_on (CHR 0x0A) ?o = split_pieces sections (l # ls')"
    using t ts by (rule split_on_structured)
  have "content_lines ?o
      = filter (\<lambda>line. line \<noteq> []) (map strip (split_pieces sections (l # ls')))"
    unfolding content_lines_def a b c ..
  also have "\<dots> = map (\<lambda>l. if is_section_header sections l then wrap_marker l else l) (l # ls')"
    using t ts by (intro kept_pieces) simp
  finally show ?thesis
    unfolding Cons o .
qed

text \<open>
  Claim C8. Structuring a text keeps the stripped, non-empty lines of the cleaned text in
  order and wraps the ones that hold a section keyword. Structuring the result again finds
  the same lines in the same order: a line without a keyword is unchanged, a wrapped line
  gets one more layer of marker, and no line is lost or altered otherwise.
\<close>

theorem structuring_twice_adds_one_marker_layer:
  "clean_and_structure_text text
     = join [CHR 0x0A]
         (map (\<lambda>l. if is_section_header sections l then CHR 0x0A # wrap_marker l else l)
              (content_lines text))
   \<and> content_lines (clean_and_structure_text text)
     = map (\<lambda>l. if is_section_header sections l then wrap_marker l else l) (content_lines text)
   \<and> clean_and_structure_text (clean_and_structure_text text)
     = join [CHR 0x0A]
         (map (\<lambda>l. if is_section_header sections l then CHR 0x0A # wrap_marker (wrap_marker l) else l)
              (content_lines text))"
proof -
  have one: "clean_and_structure_text text
     = join [CHR 0x0A]
         (map (\<lambda>l. if is_section_header sections l then CHR 0x0A # wrap_marker l else l)
              (content_lines text))"
  proof -
    have "map (structured_line sections) (content_lines text)
        = map (\<lambda>l. if is_section_header sections l then CHR 0x0A # wrap_marker l else l)
            (content_lines text)"
      by (simp add: structured_line_def)
    then show ?thesis
      by (simp only: first_pass)
  qed
  have two: "content_lines (clean_and_structure_text text)
     = map (\<lambda>l. if is_section_header sections l then wrap_marker l else l) (content_lines text)"
    unfolding first_pass
    by (rule content_lines_of_structured) (blast intro: content_lines_tidy)
  have "map (structured_line sections)
          (map (\<lambda>l. if is_section_header sections l then wrap_marker l else l) (content_lines text))
      = map (\<lambda>l. if is_section_header sections l then CHR 0x0A # wrap_marker (wrap_marker l) else l)
          (content_lines text)"
    by (simp add: structured_line_def header_wrap_marker)
  then have three: "clean_and_structure_text (clean_and_structure_text text)
     = join [CHR 0x0A]
         (map (\<lambda>l. if is_section_header sections l then CHR 0x0A # wrap_marker (wrap_marker l) else l)
              (content_lines text))"
    unfolding first_pass[of "clean_and_structure_text text"] two by (simp only:)
  from one two three show ?thesis by blast
qed

text \<open>\<open>TextProcessor.identify_sections\<close> is the same loop over the lines of its argument.\<close>

lemma identify_sections_lines:
  "identify_sections text secs
     = map (structured_line secs)
         (filter (\<lambda>line. line \<noteq> []) (map strip (split_on (CHR 0x0A) text)))"
  by (simp add: identify_sections_def structure_lines_map)

lemma content_lines_example: "content_lines (''Coverage'' @ [CHR 0x0A, CHR 0x0A, CHR 0x0A] @ ''hello  world'')
         = [''Coverage'', ''hello world'']"
  by code_simp

lemma header_example: "is_section_header sections ''Coverage''"
  by code_simp

lemma plain_line_example: "\<not> is_section_header sections ''hello world''"
  by code_simp

theorem structuring_twice_adds_one_marker_layer_witness:
  "content_lines (''Coverage'' @ [CHR 0x0A, CHR 0x0A, CHR 0x0A] @ ''hello  world'')
     = [''Coverage'', ''hello world'']
   \<and> clean_and_structure_text (''Coverage'' @ [CHR 0x0A, CHR 0x0A, CHR 0x0A] @ ''hello  world'')
     = CHR 0x0A # ''=== Coverage ==='' @ [CHR 0x0A] @ ''hello world''
   \<and> clean_and_structure_text
       (clean_and_structure_text (''Coverage'' @ [CHR 0x0A, CHR 0x0A, CHR 0x0A] @ ''hello  world''))
     = CHR 0x0A # ''=== === Coverage === ==='' @ [CHR 0x0A] @ ''hello world''"
proof -
  let ?t = "''Coverage'' @ [CHR 0x0A, CHR 0x0A, CHR 0x0A] @ ''hello  world''"
  from structuring_twice_adds_one_marker_layer[of ?t]
  have one: "clean_and_structure_text ?t
     = join [CHR 0x0A]
         (map (\<lambda>l. if is_section_header sections l then CHR 0x0A # wrap_marker l else l)
              (content_lines ?t))"
    and three: "clean_and_structure_text (clean_and_structure_text ?t)
     = join [CHR 0x0A]
         (map (\<lambda>l. if is_section_header sections l then CHR 0x0A # wrap_marker (wrap_marker l) else l)
              (content_lines ?t))"
    by blast+
  have a: "clean_and_structure_text ?t = CHR 0x0A # ''=== Coverage ==='' @ [CHR 0x0A] @ ''hello world''"
    using one[unfolded content_lines_example] header_example plain_line_example by (simp add: wrap_marker_def)
  have b: "clean_and_structure_text (clean_and_structure_text ?t)
         = CHR 0x0A # ''=== === Coverage === ==='' @ [CHR 0x0A] @ ''hello world''"
    using three[unfolded content_lines_example] header_example plain_line_example by (simp add: wrap_marker_def)
  from content_lines_example a b show ?thesis by blast
qed

end
